theory Spec2Isabelle
  imports Complex_Main "HOL-Library.Signed_Division"
begin

section \<open>Definitions\<close>

subsection \<open>Forward-mode dual numbers and \<open>binary_log_loss\<close>\<close>

text \<open>
  \<^verbatim>\<open>fvar<T>\<close> (stan/math/fwd/core/fvar.hpp) is used by the source only through its two
  fields \<^verbatim>\<open>val_\<close> and \<^verbatim>\<open>d_\<close> and its two-argument constructor. The fields are called
  \<open>val\<close> and \<open>d\<close> here, since an Isabelle name cannot end with an underscore.
\<close>

record 'a fvar =
  val :: 'a
  d :: 'a

text \<open>
  \<^verbatim>\<open>stan::agrad::binary_log_loss(const int y, const fvar<T>& y_hat)\<close>,
  fwd/scal/fun/binary_log_loss.hpp lines 12-22. The scalar type \<^verbatim>\<open>T\<close> is a template
  parameter; the model asks of it only the operations the body applies (unary minus,
  subtraction, division, the constant \<^verbatim>\<open>1.0\<close>), with no algebraic law assumed. The
  primal function \<^verbatim>\<open>stan::math::binary_log_loss\<close> that the body calls lives in
  prim/scal/fun/binary_log_loss.hpp, which is not among the sources; it is the parameter
  \<open>prim\<close>. The C++ condition \<^verbatim>\<open>if (y)\<close> on an \<^verbatim>\<open>int\<close> is the test \<open>y \<noteq> 0\<close>.
\<close>

definition binary_log_loss ::
  "(int \<Rightarrow> 'a \<Rightarrow> 'a) \<Rightarrow> int \<Rightarrow> ('a::{one,minus,uminus,inverse}) fvar \<Rightarrow> 'a fvar" where
  "binary_log_loss prim y y_hat =
     (if y \<noteq> 0
      then \<lparr>val = prim y (val y_hat), d = - d y_hat / val y_hat\<rparr>
      else \<lparr>val = prim y (val y_hat), d = d y_hat / (1 - val y_hat)\<rparr>)"

text \<open>
  Modelled from the spec: the primal \<^verbatim>\<open>stan::math::binary_log_loss(y, p)\<close>
  (prim/scal/fun/binary_log_loss.hpp) is missing from the sources. The specification
  (section 4.3) gives it as \<open>-[y\<cdot>log(p) + (1-y)\<cdot>log(1-p)]\<close>; the scalar type is
  taken to be the reals, the exact-arithmetic reading of \<^verbatim>\<open>double\<close>.
\<close>

definition binary_log_loss_prim :: "int \<Rightarrow> real \<Rightarrow> real" where
  "binary_log_loss_prim y p = - (of_int y * ln p + (1 - of_int y) * ln (1 - p))"

subsection \<open>\<open>generate_transitions\<close>\<close>

text \<open>
  services/util/generate_transitions.hpp, lines 42-64. The collaborators are abstract
  classes whose code is outside the function, so the model records what the loop does to
  them. The sampler and the current sample are state: \<^verbatim>\<open>sampler.transition(init_s, logger)\<close>
  is a function \<open>transition\<close> from the sampler's state and the sample to the new
  sampler state and the new sample. The calls \<^verbatim>\<open>callback()\<close>, \<^verbatim>\<open>iteration(start + m + 1)\<close>,
  \<^verbatim>\<open>mcmc_writer.write_sample_params(base_rng, init_s, sampler, model)\<close> and
  \<^verbatim>\<open>mcmc_writer.write_diagnostic_params(init_s, sampler)\<close> are appended, in program order,
  to a trace of events; a write event carries the sample that was written. The random
  number generator, the model and the logger are only handed through and are not
  tracked, and the collaborators are taken to return normally.
\<close>

datatype 's event =
    Interrupt
  | Iteration int
  | Write_sample_params 's
  | Write_diagnostic_params 's

datatype fault = Division_by_zero

record ('s, 'm) mcmc_state =
  init_s :: 's
  sampler :: 'm
  trace :: "'s event list"

text \<open>
  A C++ \<^verbatim>\<open>int\<close> has 32 bits. The counters are modelled by \<open>int\<close>, and an addition
  that can leave the range of \<^verbatim>\<open>int\<close> is followed by \<open>int_wrap\<close>, the wrap-around in
  two's complement: signed overflow is undefined in C++, and the compiled code wraps.
\<close>

definition int_wrap :: "int \<Rightarrow> int" where
  "int_wrap x = (x + 2 ^ 31) mod 2 ^ 32 - 2 ^ 31"

text \<open>
  One pass through the loop body (lines 54-62). The counter \<open>m\<close> stays between \<open>0\<close>
  and \<open>num_iterations\<close>, so \<^verbatim>\<open>++m\<close> never wraps; the argument \<^verbatim>\<open>start + m + 1\<close> of the
  iteration callback is two additions on \<^verbatim>\<open>int\<close>, each of which can wrap. The
  operator \<^verbatim>\<open>%\<close> truncates towards zero, which is \<open>smod\<close>; with a zero divisor its
  behaviour is undefined in C++ (in HOL \<open>m smod 0 = m\<close>), and the model makes that
  case the fault \<open>Division_by_zero\<close>. The operator \<^verbatim>\<open>&&\<close> evaluates its right operand
  only when \<^verbatim>\<open>save\<close> is true, so the division is reached only then.
\<close>

definition transition_step ::
  "('m \<Rightarrow> 's \<Rightarrow> 'm \<times> 's) \<Rightarrow> int \<Rightarrow> int \<Rightarrow> bool \<Rightarrow> int \<Rightarrow> ('s, 'm) mcmc_state
     \<Rightarrow> fault + ('s, 'm) mcmc_state" where
  "transition_step transition start num_thin save m st =
     (let st1 = st\<lparr>trace := trace st @ [Interrupt]\<rparr>;
          st2 = st1\<lparr>trace := trace st1 @ [Iteration (int_wrap (int_wrap (start + m) + 1))]\<rparr>;
          (smp, s) = transition (sampler st2) (init_s st2);
          st3 = st2\<lparr>init_s := s, sampler := smp\<rparr>
      in if save
         then (if num_thin = 0 then Inl Division_by_zero
               else if m smod num_thin = 0
               then Inr (st3\<lparr>trace := trace st3 @
                           [Write_sample_params (init_s st3),
                            Write_diagnostic_params (init_s st3)]\<rparr>)
               else Inr st3)
         else Inr st3)"

text \<open>The \<^verbatim>\<open>for\<close> loop of line 53, from the current value of \<open>m\<close>.\<close>

function transitions_from ::
  "('m \<Rightarrow> 's \<Rightarrow> 'm \<times> 's) \<Rightarrow> int \<Rightarrow> int \<Rightarrow> int \<Rightarrow> bool \<Rightarrow> int \<Rightarrow> ('s, 'm) mcmc_state
     \<Rightarrow> fault + ('s, 'm) mcmc_state" where
  "transitions_from transition num_iterations start num_thin save m st =
     (if m < num_iterations
      then (case transition_step transition start num_thin save m st of
              Inl e \<Rightarrow> Inl e
            | Inr st' \<Rightarrow>
                transitions_from transition num_iterations start num_thin save (m + 1) st')
      else Inr st)"
  by pat_completeness auto
termination
  by (relation "measure (\<lambda>(transition, num_iterations, start, num_thin, save, m, st).
                   nat (num_iterations - m))") auto

text \<open>
  The function itself: the loop started at \<open>m = 0\<close>. The parameters \<^verbatim>\<open>finish\<close> and
  \<^verbatim>\<open>warmup\<close> are not used by the body.
\<close>

definition generate_transitions ::
  "('m \<Rightarrow> 's \<Rightarrow> 'm \<times> 's) \<Rightarrow> int \<Rightarrow> int \<Rightarrow> int \<Rightarrow> int \<Rightarrow> bool \<Rightarrow> bool \<Rightarrow> ('s, 'm) mcmc_state
     \<Rightarrow> fault + ('s, 'm) mcmc_state" where
  "generate_transitions transition num_iterations start finish num_thin save warmup st =
     transitions_from transition num_iterations start num_thin save 0 st"

text \<open>
  Notions used to state what the loop does. \<open>sampler_run transition k\<close> is \<open>k\<close>
  successive transitions; \<open>iteration_events start num_thin save m s\<close> is the sequence
  of events of iteration \<open>m\<close> when \<open>s\<close> is the sample its transition produces, the
  iteration callback receiving \<open>start + m + 1\<close> wrapped to an \<^verbatim>\<open>int\<close> and a
  draw being written when \<open>save\<close> holds and \<open>m % num_thin = 0\<close>;
  \<open>written_draws\<close> extracts from a trace the samples passed to
  \<^verbatim>\<open>write_sample_params\<close>, in order.
\<close>

definition sampler_run :: "('m \<Rightarrow> 's \<Rightarrow> 'm \<times> 's) \<Rightarrow> nat \<Rightarrow> 'm \<times> 's \<Rightarrow> 'm \<times> 's" where
  "sampler_run transition k = (\<lambda>(smp, s). transition smp s) ^^ k"

definition iteration_events :: "int \<Rightarrow> int \<Rightarrow> bool \<Rightarrow> int \<Rightarrow> 's \<Rightarrow> 's event list" where
  "iteration_events start num_thin save m s =
     [Interrupt, Iteration (int_wrap (start + m + 1))] @
     (if save \<and> m smod num_thin = 0
      then [Write_sample_params s, Write_diagnostic_params s] else [])"

fun written_draws :: "'s event list \<Rightarrow> 's list" where
  "written_draws [] = []"
| "written_draws (Write_sample_params s # evs) = s # written_draws evs"
| "written_draws (e # evs) = written_draws evs"

subsection \<open>Errors\<close>

text \<open>
  Every failure of the matrix functions is a C++ \<^verbatim>\<open>std::domain_error\<close>. Two shapes occur.
  \<open>Check_error function names\<close> is the error raised by one of the argument checks
  (\<^verbatim>\<open>check_size_match\<close>, \<^verbatim>\<open>check_square\<close>, \<^verbatim>\<open>check_symmetric\<close>): it carries the function
  name the caller passes and the names of the offending arguments; the text of its
  message is composed by helpers that are not among the sources and is not modelled.
  \<open>Domain_error message\<close> is a \<^verbatim>\<open>throw std::domain_error(message)\<close> written in the
  source itself, which carries the message only.
\<close>

datatype error =
    Check_error string "string list"
  | Domain_error string

text \<open>The names of the arguments an error carries.\<close>

fun arg_names :: "error \<Rightarrow> string list" where
  "arg_names (Check_error function names) = names"
| "arg_names (Domain_error message) = []"

subsection \<open>Dense matrices\<close>

text \<open>
  \<^verbatim>\<open>Eigen::Matrix<T, R, C>\<close>: the numbers of rows and columns and the coefficients, stored
  column by column as Eigen does by default, so that the coefficient \<open>(i, j)\<close> is at
  position \<open>i + j * rows\<close>. A matrix is well formed when it holds \<open>rows * cols\<close>
  coefficients; every Eigen matrix is. \<open>coeff M i j\<close> is the read \<^verbatim>\<open>M(i, j)\<close>, which
  Eigen does not check; the functions modelled here read and write a well-formed matrix
  only at \<open>i < rows\<close> and \<open>j < cols\<close>, where the position is within the storage.
\<close>

record 'a Matrix =
  rows :: nat
  cols :: nat
  data :: "'a list"

definition wf_Matrix :: "'a Matrix \<Rightarrow> bool" where
  "wf_Matrix M = (length (data M) = rows M * cols M)"

definition coeff :: "'a Matrix \<Rightarrow> nat \<Rightarrow> nat \<Rightarrow> 'a" where
  "coeff M i j = data M ! (i + j * rows M)"

text \<open>The assignment \<^verbatim>\<open>result(i, j) = v\<close>.\<close>

definition set_coeff :: "'a Matrix \<Rightarrow> nat \<Rightarrow> nat \<Rightarrow> 'a \<Rightarrow> 'a Matrix" where
  "set_coeff M i j v = M\<lparr>data := (data M)[i + j * rows M := v]\<rparr>"

text \<open>
  The constructor \<^verbatim>\<open>Matrix(r, c)\<close> allocates without initialising: the coefficients are
  whatever the memory holds, given by the arbitrary function \<open>uninit\<close> of the position.
\<close>

definition Matrix_uninit :: "(nat \<Rightarrow> 'a) \<Rightarrow> nat \<Rightarrow> nat \<Rightarrow> 'a Matrix" where
  "Matrix_uninit uninit r c = \<lparr>rows = r, cols = c, data = map uninit [0..<r * c]\<rparr>"

subsection \<open>\<open>append_col\<close>\<close>

text \<open>
  Modelled from the spec: \<^verbatim>\<open>check_size_match\<close> (prim/mat/err/check_size_match.hpp) is
  missing from the sources. By the specification (sections 4.1, 4.2 and 7) a shape
  mismatch is signalled as a domain error; the call passes the function name and the
  names of the two sizes, which the error carries.
\<close>

definition check_size_match ::
  "string \<Rightarrow> string \<Rightarrow> nat \<Rightarrow> string \<Rightarrow> nat \<Rightarrow> error + unit" where
  "check_size_match function name_i i name_j j =
     (if i = j then Inr () else Inl (Check_error function [name_i, name_j]))"

text \<open>
  prim/mat/fun/append_col.hpp, lines 21-43: the overload for two scalar types. The
  inner loops of lines 36-37 and 40-41 both are \<^verbatim>\<open>for (i = 0; i < Arows; i++)
  result(i, j) = S(i, k)\<close>, with \<open>S = A\<close> and \<open>k = j\<close> in the first and \<open>S = B\<close> in the
  second; \<open>copy_column\<close> is that loop from the current \<open>i\<close>. The assignment converts
  the coefficient from its scalar type to the return type, which is the function
  \<open>promote\<close>. The counters are non-negative and are modelled by \<open>nat\<close>.
\<close>

function copy_column ::
  "('b \<Rightarrow> 'a) \<Rightarrow> 'b Matrix \<Rightarrow> nat \<Rightarrow> nat \<Rightarrow> nat \<Rightarrow> nat \<Rightarrow> 'a Matrix \<Rightarrow> 'a Matrix" where
  "copy_column promote S Arows j k i result =
     (if i < Arows
      then copy_column promote S Arows j k (i + 1) (set_coeff result i j (promote (coeff S i k)))
      else result)"
  by pat_completeness auto
termination
  by (relation "measure (\<lambda>(promote, S, Arows, j, k, i, result). Arows - i)") auto

text \<open>The loop of line 35 over the columns of \<open>A\<close>, from the current \<open>j\<close>.\<close>

function copy_A ::
  "('b \<Rightarrow> 'a) \<Rightarrow> 'b Matrix \<Rightarrow> nat \<Rightarrow> nat \<Rightarrow> nat \<Rightarrow> 'a Matrix \<Rightarrow> 'a Matrix" where
  "copy_A promote A Arows Acols j result =
     (if j < Acols
      then copy_A promote A Arows Acols (j + 1) (copy_column promote A Arows j j 0 result)
      else result)"
  by pat_completeness auto
termination
  by (relation "measure (\<lambda>(promote, A, Arows, Acols, j, result). Acols - j)") auto

text \<open>
  The loop of line 39 over the columns of \<open>B\<close>, from the current \<open>j\<close> and \<open>k\<close>; it
  starts with \<open>j = Acols\<close> and \<open>k = 0\<close>.
\<close>

function copy_B ::
  "('b \<Rightarrow> 'a) \<Rightarrow> 'b Matrix \<Rightarrow> nat \<Rightarrow> nat \<Rightarrow> nat \<Rightarrow> nat \<Rightarrow> 'a Matrix \<Rightarrow> 'a Matrix" where
  "copy_B promote B Arows Bcols j k result =
     (if k < Bcols
      then copy_B promote B Arows Bcols (j + 1) (k + 1) (copy_column promote B Arows j k 0 result)
      else result)"
  by pat_completeness auto
termination
  by (relation "measure (\<lambda>(promote, B, Arows, Bcols, j, k, result). Bcols - k)") auto

definition append_col ::
  "('t1 \<Rightarrow> 'a) \<Rightarrow> ('t2 \<Rightarrow> 'a) \<Rightarrow> (nat \<Rightarrow> 'a) \<Rightarrow> 't1 Matrix \<Rightarrow> 't2 Matrix \<Rightarrow> error + 'a Matrix" where
  "append_col promote1 promote2 uninit A B =
     (let Arows = rows A; Brows = rows B; Acols = cols A; Bcols = cols B
      in case check_size_match ''append_col'' ''rows of A'' Arows ''rows of B'' Brows of
           Inl e \<Rightarrow> Inl e
         | Inr _ \<Rightarrow>
             (let result = Matrix_uninit uninit Arows (Acols + Bcols);
                  result = copy_A promote1 A Arows Acols 0 result;
                  result = copy_B promote2 B Arows Bcols Acols 0 result
              in Inr result))"

text \<open>
  The overload for one scalar type, lines 49-61, fills the result with Eigen's comma
  initialiser, \<^verbatim>\<open>result << A, B\<close>. Eigen is a library outside the sources; the model
  follows its documented behaviour: the first operand is assigned to the block of its
  size at the top left corner, the next operand to the block that starts at the column
  after it. \<open>set_block M r0 c0 S\<close> is the block assignment
  \<^verbatim>\<open>M.block(r0, c0, S.rows(), S.cols()) = S\<close>. Eigen's debug-mode assertions are not
  modelled.
\<close>

definition set_block :: "'a Matrix \<Rightarrow> nat \<Rightarrow> nat \<Rightarrow> 'a Matrix \<Rightarrow> 'a Matrix" where
  "set_block M r0 c0 S =
     M\<lparr>data := map (\<lambda>p. let i = p mod rows M; j = p div rows M
                         in if r0 \<le> i \<and> i < r0 + rows S \<and> c0 \<le> j \<and> j < c0 + cols S
                            then coeff S (i - r0) (j - c0)
                            else data M ! p)
                   [0..<length (data M)]\<rparr>"

definition comma_init2 :: "'a Matrix \<Rightarrow> 'a Matrix \<Rightarrow> 'a Matrix \<Rightarrow> 'a Matrix" where
  "comma_init2 result A B = set_block (set_block result 0 0 A) 0 (cols A) B"

definition append_col_T :: "(nat \<Rightarrow> 'a) \<Rightarrow> 'a Matrix \<Rightarrow> 'a Matrix \<Rightarrow> error + 'a Matrix" where
  "append_col_T uninit A B =
     (case check_size_match ''append_col'' ''rows of A'' (rows A) ''rows of B'' (rows B) of
        Inl e \<Rightarrow> Inl e
      | Inr _ \<Rightarrow>
          (let result = Matrix_uninit uninit (rows A) (cols A + cols B);
               result = comma_init2 result A B
           in Inr result))"

subsection \<open>Matrix expressions\<close>

text \<open>
  The Eigen expressions the source of \<open>inverse_spd\<close> evaluates, over the reals (the
  exact-arithmetic reading of the scalar type): \<open>Matrix_of r c f\<close> is the dense
  \<open>r\<close> by \<open>c\<close> matrix whose coefficient \<open>(i, j)\<close> is \<open>f i j\<close>; then
  \<^verbatim>\<open>m.transpose()\<close>, \<^verbatim>\<open>m + n\<close>, \<^verbatim>\<open>a * m\<close> for a scalar \<open>a\<close>, \<^verbatim>\<open>Matrix::Identity(r, c)\<close>
  and the matrix product, which is needed to say what an inverse is.
\<close>

definition Matrix_of :: "nat \<Rightarrow> nat \<Rightarrow> (nat \<Rightarrow> nat \<Rightarrow> 'a) \<Rightarrow> 'a Matrix" where
  "Matrix_of r c f = \<lparr>rows = r, cols = c, data = map (\<lambda>p. f (p mod r) (p div r)) [0..<r * c]\<rparr>"

definition Matrix_transpose :: "'a Matrix \<Rightarrow> 'a Matrix" where
  "Matrix_transpose M = Matrix_of (cols M) (rows M) (\<lambda>i j. coeff M j i)"

definition Matrix_plus :: "real Matrix \<Rightarrow> real Matrix \<Rightarrow> real Matrix" where
  "Matrix_plus M N = Matrix_of (rows M) (cols M) (\<lambda>i j. coeff M i j + coeff N i j)"

definition Matrix_scale :: "real \<Rightarrow> real Matrix \<Rightarrow> real Matrix" where
  "Matrix_scale a M = Matrix_of (rows M) (cols M) (\<lambda>i j. a * coeff M i j)"

definition Identity :: "nat \<Rightarrow> nat \<Rightarrow> real Matrix" where
  "Identity r c = Matrix_of r c (\<lambda>i j. if i = j then 1 else 0)"

definition Matrix_times :: "real Matrix \<Rightarrow> real Matrix \<Rightarrow> real Matrix" where
  "Matrix_times M N =
     Matrix_of (rows M) (cols N) (\<lambda>i j. \<Sum>k = 0..<cols M. coeff M i k * coeff N k j)"

subsection \<open>\<open>inverse_spd\<close>\<close>

text \<open>
  \<^verbatim>\<open>Eigen::LDLT\<close> is a class of the Eigen library, outside the sources. The source uses
  four of its members: \<^verbatim>\<open>info()\<close>, \<^verbatim>\<open>isPositive()\<close>, \<^verbatim>\<open>vectorD()\<close> and \<^verbatim>\<open>solve(b)\<close>. The
  record holds what they return; the factorization itself is a parameter of the model
  of \<open>inverse_spd\<close>, a function from the matrix to this record.
\<close>

datatype ComputationInfo = Success | NumericalIssue | NoConvergence | InvalidInput

record LDLT =
  info :: ComputationInfo
  isPositive :: bool
  vectorD :: "real list"
  solve :: "real Matrix \<Rightarrow> real Matrix"

text \<open>
  Modelled from the spec: \<^verbatim>\<open>check_square\<close> and \<^verbatim>\<open>check_symmetric\<close>
  (error_handling/matrix/check_square.hpp and check_symmetric.hpp) are missing from the
  sources. By the specification (sections 6 and 7) a non-square or non-symmetric
  matrix is reported as a domain error that carries the name of the offending
  argument; symmetry is the equality of the coefficients \<open>(i, j)\<close> and \<open>(j, i)\<close>, as
  the specification states no tolerance.
\<close>

definition symmetric :: "real Matrix \<Rightarrow> bool" where
  "symmetric M = (\<forall>i \<in> {0..<rows M}. \<forall>j \<in> {0..<rows M}. coeff M i j = coeff M j i)"

definition check_square :: "string \<Rightarrow> real Matrix \<Rightarrow> string \<Rightarrow> error + unit" where
  "check_square function y name =
     (if rows y = cols y then Inr () else Inl (Check_error function [name]))"

definition check_symmetric :: "string \<Rightarrow> real Matrix \<Rightarrow> string \<Rightarrow> error + unit" where
  "check_symmetric function y name =
     (if symmetric y then Inr () else Inl (Check_error function [name]))"

text \<open>
  \<^verbatim>\<open>stan::math::inverse_spd\<close>, matrix/inverse_spd.hpp lines 22-34: the two checks, the
  factorization of \<^verbatim>\<open>0.5 * (m + m.transpose())\<close>, the two \<^verbatim>\<open>throw\<close> statements with their
  messages, and the solve against the identity. \<^verbatim>\<open>(ldlt.vectorD().array() <= 0).any()\<close>
  holds when some entry of the diagonal is at most zero.
\<close>

definition inverse_spd :: "(real Matrix \<Rightarrow> LDLT) \<Rightarrow> real Matrix \<Rightarrow> error + real Matrix" where
  "inverse_spd factorize m =
     (case check_square ''inverse_spd(%1%)'' m ''m'' of
        Inl e \<Rightarrow> Inl e
      | Inr _ \<Rightarrow>
     (case check_symmetric ''inverse_spd(%1%)'' m ''m'' of
        Inl e \<Rightarrow> Inl e
      | Inr _ \<Rightarrow>
         (let ldlt = factorize (Matrix_scale 0.5 (Matrix_plus m (Matrix_transpose m)))
          in if info ldlt \<noteq> Success
             then Inl (Domain_error ''Error in inverse_spd, LDLT factorization failed'')
             else if \<not> isPositive ldlt \<or> (\<exists>x \<in> set (vectorD ldlt). x \<le> 0)
             then Inl (Domain_error ''Error in inverse_spd, matrix not positive definite'')
             else Inr (solve ldlt (Identity (rows m) (cols m))))))"




text \<open>
  Notions used to state the claims: the zero matrix, the diagonal matrix of a list, and
  positive definiteness, \<open>x\<^sup>T M x > 0\<close> for every nonzero column vector \<open>x\<close>.
\<close>

definition Matrix_zero :: "nat \<Rightarrow> nat \<Rightarrow> real Matrix" where
  "Matrix_zero r c = Matrix_of r c (\<lambda>i j. 0)"

definition Matrix_diag :: "real list \<Rightarrow> real Matrix" where
  "Matrix_diag xs = Matrix_of (length xs) (length xs) (\<lambda>i j. if i = j then xs ! i else 0)"

definition positive_definite :: "real Matrix \<Rightarrow> bool" where
  "positive_definite M \<longleftrightarrow>
     (\<forall>x. wf_Matrix x \<and> rows x = cols M \<and> cols x = 1 \<and> x \<noteq> Matrix_zero (cols M) 1 \<longrightarrow>
          0 < coeff (Matrix_times (Matrix_transpose x) (Matrix_times M x)) 0 0)"

text \<open>
  What Eigen documents of \<^verbatim>\<open>LDLT\<close>: it computes a permutation \<open>P\<close>, a unit lower
  triangular \<open>L\<close> and a diagonal \<open>D\<close> with \<open>A = P\<^sup>T L D L\<^sup>T P\<close>, and \<^verbatim>\<open>solve(B)\<close> is
  \<open>P\<^sup>T L\<^sup>-\<^sup>T D\<^sup>-\<^sup>1 L\<^sup>-\<^sup>1 P B\<close>. With \<open>S = L\<^sup>T P\<close> and its inverse \<open>T\<close> this reads
  \<open>A = S\<^sup>T D S\<close> and \<open>solve B = T D\<^sup>-\<^sup>1 T\<^sup>T B\<close>, which is \<open>LDLT_factors A f S T\<close>.
  \<open>LDLT_exact A f\<close> says that \<open>f\<close> is such a factorization of \<open>A\<close>. It is a
  hypothesis on the parameter of \<open>inverse_spd\<close> wherever a theorem needs it.
\<close>

definition LDLT_factors :: "real Matrix \<Rightarrow> LDLT \<Rightarrow> real Matrix \<Rightarrow> real Matrix \<Rightarrow> bool" where
  "LDLT_factors A f S T \<longleftrightarrow>
     length (vectorD f) = rows A \<and> wf_Matrix S \<and> wf_Matrix T \<and>
     rows S = rows A \<and> cols S = rows A \<and> rows T = rows A \<and> cols T = rows A \<and>
     Matrix_times S T = Identity (rows A) (rows A) \<and>
     Matrix_times T S = Identity (rows A) (rows A) \<and>
     A = Matrix_times (Matrix_transpose S) (Matrix_times (Matrix_diag (vectorD f)) S) \<and>
     (\<forall>B. wf_Matrix B \<and> rows B = rows A \<longrightarrow>
          solve f B = Matrix_times T (Matrix_times (Matrix_diag (map inverse (vectorD f)))
                                        (Matrix_times (Matrix_transpose T) B)))"

definition LDLT_exact :: "real Matrix \<Rightarrow> LDLT \<Rightarrow> bool" where
  "LDLT_exact A f \<longleftrightarrow> (\<exists>S T. LDLT_factors A f S T)"

text \<open>
  An instance of the parameter for the concrete examples: the \<open>LDL\<^sup>T\<close> factorization
  of a symmetric 2 by 2 matrix without pivoting: for the matrix with the rows \<open>(a, b)\<close>
  and \<open>(b, c)\<close>, the diagonal is \<open>D = [a, c - b\<^sup>2/a]\<close> and \<open>L\<close> has the rows
  \<open>(1, 0)\<close> and \<open>(b/a, 1)\<close>.
\<close>

definition LDLT_2x2 :: "real Matrix \<Rightarrow> LDLT" where
  "LDLT_2x2 A =
     (let a = coeff A 0 0; b = coeff A 1 0; c = coeff A 1 1;
          l = b / a; d1 = c - l * b;
          T = Matrix_of 2 2 (\<lambda>i j. if i = j then 1 else if i = 0 \<and> j = 1 then - l else 0)
      in \<lparr>info = Success,
          isPositive = (0 \<le> a \<and> 0 \<le> d1),
          vectorD = [a, d1],
          solve = (\<lambda>B. Matrix_times T (Matrix_times (Matrix_diag [inverse a, inverse d1])
                                          (Matrix_times (Matrix_transpose T) B)))\<rparr>)"


section \<open>Theorems\<close>

subsection \<open>\<open>binary_log_loss\<close>\<close>

lemma binary_log_loss_val: "val (binary_log_loss prim y y_hat) = prim y (val y_hat)"
  by (simp add: binary_log_loss_def)

text \<open>
  The specified primal is differentiable on the open unit interval, with the derivative
  the specification states, \<open>-y/p + (1-y)/(1-p)\<close>.
\<close>

lemma binary_log_loss_prim_has_derivative:
  assumes "0 < p" "p < 1"
  shows "(binary_log_loss_prim y has_real_derivative
            (- of_int y / p + (1 - of_int y) / (1 - p))) (at p)"
proof -
  have a: "((\<lambda>x. ln x) has_real_derivative 1 / p) (at p)"
    using assms by (auto intro!: derivative_eq_intros)
  have b: "((\<lambda>x. ln (1 - x)) has_real_derivative - 1 / (1 - p)) (at p)"
    using assms by (auto intro!: derivative_eq_intros)
  have "((\<lambda>x. - (of_int y * ln x + (1 - of_int y) * ln (1 - x))) has_real_derivative
          - (of_int y * (1 / p) + (1 - of_int y) * (- 1 / (1 - p)))) (at p)"
    by (intro DERIV_minus DERIV_add DERIV_cmult a b)
  moreover have "- (of_int y * (1 / p) + (1 - of_int y) * (- 1 / (1 - p)))
        = - of_int y / p + (1 - of_int y) / (1 - p)"
    by simp
  ultimately show ?thesis
    unfolding binary_log_loss_prim_def [abs_def] by simp
qed

text \<open>
  For a label in \<open>{0, 1}\<close> the tangent the code returns is the chain rule applied to
  the specified primal: its derivative at the primal value times the incoming tangent.
\<close>

lemma binary_log_loss_chain_rule:
  assumes "y = 0 \<or> y = 1"
  shows "d (binary_log_loss binary_log_loss_prim y y_hat)
           = (- of_int y / val y_hat + (1 - of_int y) / (1 - val y_hat)) * d y_hat"
  using assms by (auto simp: binary_log_loss_def)

text \<open>
  Claim C1. For every dual number \<open>y_hat\<close> and every label \<open>y\<close> in \<open>{0, 1}\<close>, the
  tangent of \<open>binary_log_loss y y_hat\<close> is built from the tangent and the value of
  \<open>y_hat\<close> alone, the label only selecting the formula: it is
  \<open>- d y_hat / val y_hat\<close> when \<open>y = 1\<close> and \<open>d y_hat / (1 - val y_hat)\<close> when
  \<open>y = 0\<close>. This holds for every scalar type and every primal function.
\<close>

theorem C1_binary_log_loss_tangent:
  assumes "y = 0 \<or> y = 1"
  shows "(y = 1 \<longrightarrow> d (binary_log_loss prim y y_hat) = - d y_hat / val y_hat) \<and>
         (y = 0 \<longrightarrow> d (binary_log_loss prim y y_hat) = d y_hat / (1 - val y_hat))"
  using assms by (auto simp: binary_log_loss_def)

theorem C1_binary_log_loss_tangent_witness:
  "d (binary_log_loss binary_log_loss_prim 1 \<lparr>val = 1 / 4, d = 3\<rparr>) = - 12 \<and>
   d (binary_log_loss binary_log_loss_prim 0 \<lparr>val = 1 / 4, d = 3\<rparr>) = 4"
  using C1_binary_log_loss_tangent [of 1 binary_log_loss_prim "\<lparr>val = 1 / 4, d = 3\<rparr>"]
        C1_binary_log_loss_tangent [of 0 binary_log_loss_prim "\<lparr>val = 1 / 4, d = 3\<rparr>"]
  by simp

text \<open>
  Claim C6. With the primal of the specification over the reals: for \<open>y = 1\<close> and the
  dual number with primal \<open>0.8\<close> and tangent seed \<open>1\<close>, \<open>binary_log_loss\<close> yields the
  value \<open>- ln 0.8\<close> and the derivative \<open>- 1 / 0.8 = - 1.25\<close>; for \<open>y = 0\<close> it yields
  the value \<open>- ln 0.2\<close> and the derivative \<open>1 / 0.2 = 5\<close>. Both values are instances
  of \<open>-[y\<cdot>ln p + (1-y)\<cdot>ln (1-p)]\<close>, and both derivatives are the derivative of that
  function of \<open>p\<close> at \<open>0.8\<close>, which is \<open>-y/p + (1-y)/(1-p)\<close>.
\<close>

theorem C6_binary_log_loss_example:
  "binary_log_loss binary_log_loss_prim 1 \<lparr>val = 0.8, d = 1\<rparr> = \<lparr>val = - ln 0.8, d = - 1.25\<rparr> \<and>
   binary_log_loss binary_log_loss_prim 0 \<lparr>val = 0.8, d = 1\<rparr> = \<lparr>val = - ln 0.2, d = 5\<rparr> \<and>
   - 1.25 = - 1 / (0.8 :: real) \<and> 5 = 1 / (0.2 :: real) \<and>
   binary_log_loss_prim 1 0.8 = - (1 * ln 0.8 + (1 - 1) * ln (1 - 0.8)) \<and>
   binary_log_loss_prim 0 0.8 = - (0 * ln 0.8 + (1 - 0) * ln (1 - 0.8)) \<and>
   (binary_log_loss_prim 1 has_real_derivative - 1.25) (at 0.8) \<and>
   (binary_log_loss_prim 0 has_real_derivative 5) (at 0.8)"
proof -
  have "(binary_log_loss_prim 1 has_real_derivative
           (- of_int 1 / 0.8 + (1 - of_int 1) / (1 - 0.8))) (at 0.8)"
    by (rule binary_log_loss_prim_has_derivative) simp_all
  then have d1: "(binary_log_loss_prim 1 has_real_derivative - 1.25) (at 0.8)"
    by simp
  have "(binary_log_loss_prim 0 has_real_derivative
           (- of_int 0 / 0.8 + (1 - of_int 0) / (1 - 0.8))) (at 0.8)"
    by (rule binary_log_loss_prim_has_derivative) simp_all
  then have d0: "(binary_log_loss_prim 0 has_real_derivative 5) (at 0.8)"
    by simp
  have v: "binary_log_loss binary_log_loss_prim 1 \<lparr>val = 0.8, d = 1\<rparr>
             = \<lparr>val = - ln 0.8, d = - 1.25\<rparr>"
          "binary_log_loss binary_log_loss_prim 0 \<lparr>val = 0.8, d = 1\<rparr>
             = \<lparr>val = - ln 0.2, d = 5\<rparr>"
    by (simp_all add: binary_log_loss_def binary_log_loss_prim_def)
  have f: "binary_log_loss_prim 1 0.8 = - (1 * ln 0.8 + (1 - 1) * ln (1 - 0.8))"
          "binary_log_loss_prim 0 0.8 = - (0 * ln 0.8 + (1 - 0) * ln (1 - 0.8))"
    by (simp_all add: binary_log_loss_prim_def)
  show ?thesis
    using d1 d0 v f by simp
qed

text \<open>
  Claim C9. The branch is taken on \<open>y \<noteq> 0\<close>, not on \<open>y = 1\<close>: for every nonzero
  label (such as \<open>2\<close> or \<open>-1\<close>) the result has the primal \<open>prim y (val y_hat)\<close> and
  the tangent \<open>- d y_hat / val y_hat\<close>; the label \<open>0\<close>, and only it, gives the tangent
  \<open>d y_hat / (1 - val y_hat)\<close>.
\<close>

theorem C9_binary_log_loss_truthiness:
  "(y \<noteq> 0 \<longrightarrow> binary_log_loss prim y y_hat
                 = \<lparr>val = prim y (val y_hat), d = - d y_hat / val y_hat\<rparr>) \<and>
   (y = 0 \<longrightarrow> binary_log_loss prim y y_hat
                 = \<lparr>val = prim y (val y_hat), d = d y_hat / (1 - val y_hat)\<rparr>)"
  by (simp add: binary_log_loss_def)

theorem C9_binary_log_loss_truthiness_witness:
  "binary_log_loss binary_log_loss_prim 2 \<lparr>val = 1 / 4, d = 3\<rparr>
     = \<lparr>val = binary_log_loss_prim 2 (1 / 4), d = - 12\<rparr> \<and>
   binary_log_loss binary_log_loss_prim (- 1) \<lparr>val = 1 / 4, d = 3\<rparr>
     = \<lparr>val = binary_log_loss_prim (- 1) (1 / 4), d = - 12\<rparr> \<and>
   binary_log_loss binary_log_loss_prim 0 \<lparr>val = 1 / 4, d = 3\<rparr>
     = \<lparr>val = binary_log_loss_prim 0 (1 / 4), d = 4\<rparr>"
  using C9_binary_log_loss_truthiness [of 2 binary_log_loss_prim "\<lparr>val = 1 / 4, d = 3\<rparr>"]
        C9_binary_log_loss_truthiness [of "- 1" binary_log_loss_prim "\<lparr>val = 1 / 4, d = 3\<rparr>"]
        C9_binary_log_loss_truthiness [of 0 binary_log_loss_prim "\<lparr>val = 1 / 4, d = 3\<rparr>"]
  by simp


subsection \<open>\<open>generate_transitions\<close>\<close>

declare transitions_from.simps [simp del]

lemma sampler_run_0: "sampler_run transition 0 x = x"
  by (simp add: sampler_run_def)

lemma sampler_run_Suc:
  "sampler_run transition (Suc k) (smp, s) = sampler_run transition k (transition smp s)"
  by (simp add: sampler_run_def funpow_swap1)

lemma int_wrap_add_left: "int_wrap (int_wrap a + b) = int_wrap (a + b)"
proof -
  have "(int_wrap a + b + 2 ^ 31) mod 2 ^ 32 = ((a + 2 ^ 31) mod 2 ^ 32 + b) mod 2 ^ 32"
    by (simp add: int_wrap_def)
  also have "\<dots> = (a + 2 ^ 31 + b) mod 2 ^ 32"
    by (rule mod_add_left_eq)
  also have "a + 2 ^ 31 + b = a + b + 2 ^ 31"
    by (simp only: add.assoc add.commute [of _ b])
  finally show ?thesis
    by (simp add: int_wrap_def)
qed

lemma int_wrap_in_range:
  assumes "- (2 ^ 31) \<le> x" "x < 2 ^ 31"
  shows "int_wrap x = x"
  using assms by (simp add: int_wrap_def)

lemma transition_step_ok:
  assumes "\<not> save \<or> num_thin \<noteq> 0"
  shows "transition_step transition start num_thin save m st =
           Inr (st\<lparr>init_s := snd (transition (sampler st) (init_s st)),
                    sampler := fst (transition (sampler st) (init_s st)),
                    trace := trace st @ iteration_events start num_thin save m
                                          (snd (transition (sampler st) (init_s st)))\<rparr>)"
  using assms
  by (auto simp: transition_step_def iteration_events_def Let_def int_wrap_add_left
           split: prod.splits)

lemma transition_step_zero:
  assumes "save" "num_thin = 0"
  shows "transition_step transition start num_thin save m st = Inl Division_by_zero"
  using assms by (simp add: transition_step_def Let_def split: prod.splits)

lemma transitions_from_ok:
  assumes "\<not> save \<or> num_thin \<noteq> 0"
  shows "nat (num_iterations - m) = k \<Longrightarrow>
         transitions_from transition num_iterations start num_thin save m st =
           Inr (st\<lparr>init_s := snd (sampler_run transition k (sampler st, init_s st)),
                    sampler := fst (sampler_run transition k (sampler st, init_s st)),
                    trace := trace st @
                      concat (map (\<lambda>j. iteration_events start num_thin save (m + int j)
                                     (snd (sampler_run transition (Suc j) (sampler st, init_s st))))
                                  [0..<k])\<rparr>)"
proof (induction k arbitrary: m st)
  case 0
  then have "\<not> m < num_iterations" by simp
  then show ?case by (simp add: sampler_run_0 transitions_from.simps [of _ _ _ _ _ m])
next
  case (Suc k)
  then have lt: "m < num_iterations" and k: "nat (num_iterations - (m + 1)) = k" by auto
  obtain smp s where T: "transition (sampler st) (init_s st) = (smp, s)"
    by (cases "transition (sampler st) (init_s st)")
  let ?st' = "st\<lparr>init_s := s, sampler := smp,
                   trace := trace st @ iteration_events start num_thin save m s\<rparr>"
  have step: "transition_step transition start num_thin save m st = Inr ?st'"
    using transition_step_ok [OF assms, of transition start m st] T by simp
  have run: "sampler_run transition (Suc j) (sampler st, init_s st)
               = sampler_run transition j (smp, s)" for j
    using sampler_run_Suc [of transition j "sampler st" "init_s st"] T by simp
  have upt: "[0..<Suc k] = 0 # map Suc [0..<k]"
    by (simp add: upt_conv_Cons map_Suc_upt del: upt_Suc)
  have "transitions_from transition num_iterations start num_thin save m st
          = transitions_from transition num_iterations start num_thin save (m + 1) ?st'"
    using lt step by (simp add: transitions_from.simps [of _ _ _ _ _ m])
  also have "\<dots> = Inr (?st'\<lparr>init_s := snd (sampler_run transition k (sampler ?st', init_s ?st')),
                    sampler := fst (sampler_run transition k (sampler ?st', init_s ?st')),
                    trace := trace ?st' @
                      concat (map (\<lambda>j. iteration_events start num_thin save (m + 1 + int j)
                                     (snd (sampler_run transition (Suc j) (sampler ?st', init_s ?st'))))
                                  [0..<k])\<rparr>)"
    by (rule Suc.IH [OF k])
  finally show ?case
    unfolding upt by (simp add: run sampler_run_0 comp_def add.assoc del: upt_Suc)
qed

lemma written_draws_append: "written_draws (xs @ ys) = written_draws xs @ written_draws ys"
  by (induction xs rule: written_draws.induct) simp_all

lemma written_draws_iteration_events:
  "written_draws (iteration_events start num_thin save m s)
     = (if save \<and> m smod num_thin = 0 then [s] else [])"
  by (simp add: iteration_events_def)

lemma written_draws_blocks:
  "written_draws (concat (map (\<lambda>j. iteration_events start num_thin save (int j) (f j)) js))
     = map f (filter (\<lambda>j. save \<and> int j smod num_thin = 0) js)"
  by (induction js) (simp_all add: written_draws_append written_draws_iteration_events)

text \<open>
  Claim C8. \<open>generate_transitions\<close> needs \<open>num_thin \<noteq> 0\<close> whenever \<open>save\<close> is
  true and \<open>num_iterations > 0\<close>: otherwise the first pass evaluates
  \<open>m % num_thin\<close> with a zero divisor. Under that precondition the function returns;
  its trace is, iteration after iteration for \<open>m = 0, \<dots>, num_iterations - 1\<close>, the
  interrupt callback, the iteration callback with \<open>start + m + 1\<close> (wrapped to an
  \<^verbatim>\<open>int\<close>) and, exactly when
  \<open>save\<close> holds and \<open>m % num_thin = 0\<close>, the two writes of the sample produced by
  that iteration's transition. The draws written are therefore the samples of the
  iterations \<open>m\<close> with \<open>m % num_thin = 0\<close>, and when \<open>save\<close> holds and there is
  at least one iteration, the first one is written.
\<close>

theorem C8_generate_transitions_thinning:
  fixes transition :: "'m \<Rightarrow> 's \<Rightarrow> 'm \<times> 's" and st :: "('s, 'm) mcmc_state"
    and num_iterations start finish num_thin :: int and save warmup :: bool
  defines "sample_after \<equiv> \<lambda>k. snd (sampler_run transition k (sampler st, init_s st))"
  defines "result \<equiv> generate_transitions transition num_iterations start finish num_thin save warmup st"
  shows
  "(save \<and> 0 < num_iterations \<and> num_thin = 0 \<longrightarrow> result = Inl Division_by_zero) \<and>
   ((save \<and> 0 < num_iterations \<longrightarrow> num_thin \<noteq> 0) \<longrightarrow>
      (\<exists>st'. result = Inr st' \<and>
         trace st' = trace st @
            concat (map (\<lambda>m. iteration_events start num_thin save (int m) (sample_after (Suc m)))
                        [0..<nat num_iterations]) \<and>
         written_draws (trace st') = written_draws (trace st) @
            map (\<lambda>m. sample_after (Suc m))
                (filter (\<lambda>m. save \<and> int m smod num_thin = 0) [0..<nat num_iterations]) \<and>
         (save \<and> 0 < num_iterations \<longrightarrow>
            take 4 (drop (length (trace st)) (trace st'))
              = [Interrupt, Iteration (int_wrap (start + 1)),
                 Write_sample_params (sample_after 1), Write_diagnostic_params (sample_after 1)])))"
proof (intro conjI impI)
  assume a: "save \<and> 0 < num_iterations \<and> num_thin = 0"
  then have "transition_step transition start num_thin save 0 st = Inl Division_by_zero"
    by (simp add: transition_step_zero)
  with a show "result = Inl Division_by_zero"
    by (simp add: result_def generate_transitions_def transitions_from.simps [of _ _ _ _ _ 0])
next
  assume pre: "save \<and> 0 < num_iterations \<longrightarrow> num_thin \<noteq> 0"
  let ?blocks = "concat (map (\<lambda>m. iteration_events start num_thin save (int m) (sample_after (Suc m)))
                        [0..<nat num_iterations])"
  let ?st' = "st\<lparr>init_s := snd (sampler_run transition (nat num_iterations) (sampler st, init_s st)),
                   sampler := fst (sampler_run transition (nat num_iterations) (sampler st, init_s st)),
                   trace := trace st @ ?blocks\<rparr>"
  have res: "result = Inr ?st'"
  proof (cases "0 < num_iterations")
    case True
    show ?thesis
    proof (cases "\<not> save \<or> num_thin \<noteq> 0")
      case True
      from transitions_from_ok [OF True, of num_iterations 0 "nat num_iterations" transition start st]
      show ?thesis by (simp add: result_def generate_transitions_def sample_after_def)
    next
      case False
      with pre \<open>0 < num_iterations\<close> show ?thesis by simp
    qed
  next
    case False
    then show ?thesis
      by (simp add: result_def generate_transitions_def sampler_run_0
                    transitions_from.simps [of _ _ _ _ _ 0])
  qed
  have first: "take 4 (drop (length (trace st)) (trace ?st'))
              = [Interrupt, Iteration (int_wrap (start + 1)),
                 Write_sample_params (sample_after 1), Write_diagnostic_params (sample_after 1)]"
    if "save \<and> 0 < num_iterations"
  proof -
    from that have "[0..<nat num_iterations] = 0 # [1..<nat num_iterations]"
      by (simp add: upt_conv_Cons)
    with that pre show ?thesis by (simp add: iteration_events_def)
  qed
  show "\<exists>st'. result = Inr st' \<and>
         trace st' = trace st @ ?blocks \<and>
         written_draws (trace st') = written_draws (trace st) @
            map (\<lambda>m. sample_after (Suc m))
                (filter (\<lambda>m. save \<and> int m smod num_thin = 0) [0..<nat num_iterations]) \<and>
         (save \<and> 0 < num_iterations \<longrightarrow>
            take 4 (drop (length (trace st)) (trace st'))
              = [Interrupt, Iteration (int_wrap (start + 1)),
                 Write_sample_params (sample_after 1), Write_diagnostic_params (sample_after 1)])"
    using res first
    by (intro exI [of _ ?st']) (simp add: written_draws_append written_draws_blocks)
qed

theorem C8_generate_transitions_thinning_witness:
  "generate_transitions (\<lambda>m s. (m + 1, s * 2)) 5 10 20 0 True False
       \<lparr>init_s = 1 :: int, sampler = 0 :: nat, trace = []\<rparr> = Inl Division_by_zero \<and>
   (\<exists>st'. generate_transitions (\<lambda>m s. (m + 1, s * 2)) 1 2147483647 2147483647 3 True False
       \<lparr>init_s = 1 :: int, sampler = 0 :: nat, trace = []\<rparr> = Inr st' \<and>
     trace st' = [Interrupt, Iteration (- 2147483648),
                  Write_sample_params 2, Write_diagnostic_params 2]) \<and>
   (\<exists>st'. generate_transitions (\<lambda>m s. (m + 1, s * 2)) 5 10 20 2 True False
       \<lparr>init_s = 1 :: int, sampler = 0 :: nat, trace = []\<rparr> = Inr st' \<and>
     trace st' = [Interrupt, Iteration 11, Write_sample_params 2, Write_diagnostic_params 2,
                  Interrupt, Iteration 12,
                  Interrupt, Iteration 13, Write_sample_params 8, Write_diagnostic_params 8,
                  Interrupt, Iteration 14,
                  Interrupt, Iteration 15, Write_sample_params 32, Write_diagnostic_params 32] \<and>
     written_draws (trace st') = [2, 8, 32])"
proof -
  have n: "[0..<nat 5] = [0, 1, 2, 3, 4]" "[0..<nat 1] = [0]"
    by (simp_all add: upt_rec)
  have s: "sampler_run (\<lambda>m s. (Suc m, s * 2)) k (0 :: nat, 1 :: int) = (k, 2 ^ k)" for k
    by (induction k) (simp_all add: sampler_run_def)
  show ?thesis
    using C8_generate_transitions_thinning
            [of True 5 0 "\<lambda>m s. (m + 1, s * 2)" 10 20 False
                "\<lparr>init_s = 1 :: int, sampler = 0 :: nat, trace = []\<rparr>"]
          C8_generate_transitions_thinning
            [of True 5 2 "\<lambda>m s. (m + 1, s * 2)" 10 20 False
                "\<lparr>init_s = 1 :: int, sampler = 0 :: nat, trace = []\<rparr>"]
          C8_generate_transitions_thinning
            [of True 1 3 "\<lambda>m s. (m + 1, s * 2)" 2147483647 2147483647 False
                "\<lparr>init_s = 1 :: int, sampler = 0 :: nat, trace = []\<rparr>"]
    unfolding n by (auto simp: s iteration_events_def smod_int_alt_def int_wrap_def)
qed


subsection \<open>\<open>append_col\<close>\<close>

declare copy_column.simps [simp del] copy_A.simps [simp del] copy_B.simps [simp del]

lemma set_coeff_simps [simp]:
  "rows (set_coeff M i j v) = rows M"
  "cols (set_coeff M i j v) = cols M"
  "length (data (set_coeff M i j v)) = length (data M)"
  by (simp_all add: set_coeff_def)

lemma copy_column_shape [simp]:
  "rows (copy_column promote S n j k i result) = rows result"
  "cols (copy_column promote S n j k i result) = cols result"
  "length (data (copy_column promote S n j k i result)) = length (data result)"
  by (induction promote S n j k i result rule: copy_column.induct;
      subst copy_column.simps; simp)+

lemma copy_column_nth:
  assumes "rows result = n" "rows S = n" "p < length (data result)"
  shows "data (copy_column promote S n j k i result) ! p =
           (if j * n + i \<le> p \<and> p < j * n + n
            then promote (data S ! (p - j * n + k * n)) else data result ! p)"
  using assms
proof (induction promote S n j k i result rule: copy_column.induct)
  case (1 promote S Arows j k i result)
  show ?case
  proof (cases "i < Arows")
    case True
    have "data (copy_column promote S Arows j k i result) ! p
            = data (copy_column promote S Arows j k (i + 1)
                      (set_coeff result i j (promote (coeff S i k)))) ! p"
      using True by (subst copy_column.simps) simp
    also have "\<dots> = (if j * Arows + (i + 1) \<le> p \<and> p < j * Arows + Arows
                      then promote (data S ! (p - j * Arows + k * Arows))
                      else data (set_coeff result i j (promote (coeff S i k))) ! p)"
      using "1.IH" [OF True] "1.prems" by simp
    also have "\<dots> = (if j * Arows + i \<le> p \<and> p < j * Arows + Arows
                      then promote (data S ! (p - j * Arows + k * Arows)) else data result ! p)"
      using True "1.prems" by (auto simp: set_coeff_def coeff_def nth_list_update ac_simps)
    finally show ?thesis .
  next
    case False
    then show ?thesis by (subst copy_column.simps) auto
  qed
qed

lemma copy_A_shape [simp]:
  "rows (copy_A promote A n Acols j result) = rows result"
  "cols (copy_A promote A n Acols j result) = cols result"
  "length (data (copy_A promote A n Acols j result)) = length (data result)"
  by (induction promote A n Acols j result rule: copy_A.induct;
      subst copy_A.simps; simp)+

lemma copy_A_nth:
  assumes "rows result = n" "rows A = n" "p < length (data result)"
  shows "data (copy_A promote A n Acols j result) ! p =
           (if j * n \<le> p \<and> p < Acols * n then promote (data A ! p) else data result ! p)"
  using assms
proof (induction promote A n Acols j result rule: copy_A.induct)
  case (1 promote A Arows Acols j result)
  show ?case
  proof (cases "j < Acols")
    case True
    let ?r = "copy_column promote A Arows j j 0 result"
    have col: "data ?r ! p = (if j * Arows \<le> p \<and> p < j * Arows + Arows
                              then promote (data A ! p) else data result ! p)"
      using copy_column_nth [of result Arows A p promote j j 0] "1.prems" by auto
    have le: "j * Arows + Arows \<le> Acols * Arows"
      using True by (metis Suc_leI mult_Suc mult_le_mono1 add.commute)
    have "data (copy_A promote A Arows Acols j result) ! p
            = data (copy_A promote A Arows Acols (j + 1) ?r) ! p"
      using True by (subst copy_A.simps) simp
    also have "\<dots> = (if (j + 1) * Arows \<le> p \<and> p < Acols * Arows
                      then promote (data A ! p) else data ?r ! p)"
      using "1.IH" [OF True] "1.prems" by simp
    also have "\<dots> = (if j * Arows \<le> p \<and> p < Acols * Arows
                      then promote (data A ! p) else data result ! p)"
      using col le by auto
    finally show ?thesis .
  next
    case False
    then have "Acols * Arows \<le> j * Arows" by simp
    then have *: "\<not> (j * Arows \<le> p \<and> p < Acols * Arows)" by linarith
    show ?thesis by (subst copy_A.simps) (simp only: False * if_False)
  qed
qed

lemma copy_B_shape [simp]:
  "rows (copy_B promote B n Bcols j k result) = rows result"
  "cols (copy_B promote B n Bcols j k result) = cols result"
  "length (data (copy_B promote B n Bcols j k result)) = length (data result)"
  by (induction promote B n Bcols j k result rule: copy_B.induct;
      subst copy_B.simps; simp)+

lemma copy_B_nth:
  assumes "rows result = n" "rows B = n" "p < length (data result)" "k \<le> j"
  shows "data (copy_B promote B n Bcols j k result) ! p =
           (if j * n \<le> p \<and> p < (j - k + Bcols) * n
            then promote (data B ! (p - (j - k) * n)) else data result ! p)"
  using assms
proof (induction promote B n Bcols j k result rule: copy_B.induct)
  case (1 promote B Arows Bcols j k result)
  show ?case
  proof (cases "k < Bcols")
    case True
    let ?r = "copy_column promote B Arows j k 0 result"
    have kj: "k * Arows \<le> j * Arows" using "1.prems" by simp
    have eq: "j * Arows \<le> p \<Longrightarrow> p - j * Arows + k * Arows = p - (j - k) * Arows"
      using "1.prems" kj by (simp add: diff_mult_distrib)
    have col: "data ?r ! p = (if j * Arows \<le> p \<and> p < j * Arows + Arows
                              then promote (data B ! (p - (j - k) * Arows)) else data result ! p)"
      using copy_column_nth [of result Arows B p promote j k 0] "1.prems" eq by auto
    have "Suc j \<le> j - k + Bcols" using True "1.prems" by arith
    then have le: "j * Arows + Arows \<le> (j - k + Bcols) * Arows"
      by (metis mult_Suc mult_le_mono1 add.commute)
    have "data (copy_B promote B Arows Bcols j k result) ! p
            = data (copy_B promote B Arows Bcols (j + 1) (k + 1) ?r) ! p"
      using True by (subst copy_B.simps) simp
    also have "\<dots> = (if (j + 1) * Arows \<le> p \<and> p < (j + 1 - (k + 1) + Bcols) * Arows
                      then promote (data B ! (p - (j + 1 - (k + 1)) * Arows)) else data ?r ! p)"
      using "1.IH" [OF True] "1.prems" by simp
    also have "\<dots> = (if j * Arows \<le> p \<and> p < (j - k + Bcols) * Arows
                      then promote (data B ! (p - (j - k) * Arows)) else data result ! p)"
      using col le by auto
    finally show ?thesis .
  next
    case False
    then have "j - k + Bcols \<le> j" using "1.prems" by simp
    then have "(j - k + Bcols) * Arows \<le> j * Arows" by simp
    then have *: "\<not> (j * Arows \<le> p \<and> p < (j - k + Bcols) * Arows)" by linarith
    show ?thesis by (subst copy_B.simps) (simp only: False * if_False)
  qed
qed

lemma append_col_data:
  assumes "rows A = rows B" "wf_Matrix A" "wf_Matrix B"
  shows "append_col promote1 promote2 uninit A B =
           Inr \<lparr>rows = rows A, cols = cols A + cols B,
                data = map promote1 (data A) @ map promote2 (data B)\<rparr>"
proof -
  let ?n = "rows A"
  let ?r0 = "Matrix_uninit uninit ?n (cols A + cols B)"
  let ?r1 = "copy_A promote1 A ?n (cols A) 0 ?r0"
  let ?r2 = "copy_B promote2 B ?n (cols B) (cols A) 0 ?r1"
  have len0: "length (data ?r0) = ?n * (cols A + cols B)" and rows0: "rows ?r0 = ?n"
    and cols0: "cols ?r0 = cols A + cols B"
    by (simp_all add: Matrix_uninit_def)
  have lenA: "length (data A) = cols A * ?n" and lenB: "length (data B) = cols B * ?n"
    using assms by (simp_all add: wf_Matrix_def mult.commute)
  have "data ?r2 = map promote1 (data A) @ map promote2 (data B)"
  proof (rule nth_equalityI)
    show "length (data ?r2) = length (map promote1 (data A) @ map promote2 (data B))"
      using len0 lenA lenB by (simp add: algebra_simps)
  next
    fix p assume "p < length (data ?r2)"
    then have p: "p < length (data ?r0)" by simp
    then have pb: "p < (cols A + cols B) * ?n" using len0 by (simp add: mult.commute)
    have r1: "rows ?r1 = ?n" "p < length (data ?r1)"
      using rows0 p by simp_all
    have "data ?r2 ! p = (if cols A * ?n \<le> p \<and> p < (cols A - 0 + cols B) * ?n
            then promote2 (data B ! (p - (cols A - 0) * ?n)) else data ?r1 ! p)"
      by (rule copy_B_nth [OF r1(1) assms(1) [symmetric] r1(2)]) simp
    moreover have "data ?r1 ! p = (if 0 * ?n \<le> p \<and> p < cols A * ?n
            then promote1 (data A ! p) else data ?r0 ! p)"
      by (rule copy_A_nth [OF rows0 refl p])
    moreover have "p - cols A * ?n < length (data B)" if "\<not> p < cols A * ?n"
      using that pb lenB by (simp add: add_mult_distrib)
    ultimately show "data ?r2 ! p = (map promote1 (data A) @ map promote2 (data B)) ! p"
      using pb lenA by (auto simp: nth_append)
  qed
  moreover have "rows ?r2 = ?n" "cols ?r2 = cols A + cols B"
    using rows0 cols0 by simp_all
  ultimately have r2: "?r2 = \<lparr>rows = rows A, cols = cols A + cols B,
                data = map promote1 (data A) @ map promote2 (data B)\<rparr>"
    by simp
  have "append_col promote1 promote2 uninit A B = Inr ?r2"
    unfolding append_col_def Let_def check_size_match_def using assms(1) by simp
  then show ?thesis
    by (simp only: r2)
qed


lemma set_block_shape [simp]:
  "rows (set_block M r0 c0 S) = rows M"
  "cols (set_block M r0 c0 S) = cols M"
  "length (data (set_block M r0 c0 S)) = length (data M)"
  by (simp_all add: set_block_def)

lemma set_block_nth:
  assumes "p < length (data M)"
  shows "data (set_block M r0 c0 S) ! p =
           (if r0 \<le> p mod rows M \<and> p mod rows M < r0 + rows S \<and>
               c0 \<le> p div rows M \<and> p div rows M < c0 + cols S
            then coeff S (p mod rows M - r0) (p div rows M - c0) else data M ! p)"
  using assms by (simp add: set_block_def Let_def)

lemma column_major_index:
  fixes p n c :: nat
  assumes "c \<le> p div n" "0 < n"
  shows "p mod n + (p div n - c) * n = p - c * n"
proof -
  have "c * n \<le> p div n * n" using assms(1) by simp
  moreover have "p mod n + p div n * n = p" by simp
  ultimately show ?thesis by (simp add: diff_mult_distrib)
qed

lemma append_col_T_data:
  assumes "rows A = rows B" "wf_Matrix A" "wf_Matrix B"
  shows "append_col_T uninit A B =
           Inr \<lparr>rows = rows A, cols = cols A + cols B, data = data A @ data B\<rparr>"
proof -
  let ?n = "rows A"
  let ?r0 = "Matrix_uninit uninit ?n (cols A + cols B)"
  let ?r1 = "set_block ?r0 0 0 A"
  let ?r2 = "set_block ?r1 0 (cols A) B"
  have len0: "length (data ?r0) = ?n * (cols A + cols B)" and rows0: "rows ?r0 = ?n"
    and cols0: "cols ?r0 = cols A + cols B"
    by (simp_all add: Matrix_uninit_def)
  have lenA: "length (data A) = cols A * ?n" and lenB: "length (data B) = cols B * ?n"
    using assms by (simp_all add: wf_Matrix_def mult.commute)
  have "data ?r2 = data A @ data B"
  proof (rule nth_equalityI)
    show "length (data ?r2) = length (data A @ data B)"
      using len0 lenA lenB by (simp add: algebra_simps)
  next
    fix p assume "p < length (data ?r2)"
    then have p: "p < length (data ?r0)" by simp
    then have pb: "p < (cols A + cols B) * ?n" using len0 by (simp add: mult.commute)
    then have n: "0 < ?n" by (cases "?n = 0") simp_all
    have m: "p mod ?n < ?n" using n by simp
    have dv: "p div ?n < c \<longleftrightarrow> p < c * ?n" for c
      using n by (simp add: div_less_iff_less_mult)
    have r1: "rows ?r1 = ?n" "p < length (data ?r1)"
      using rows0 p by simp_all
    have "data ?r1 ! p = (if p < cols A * ?n then data A ! p else data ?r0 ! p)"
      using set_block_nth [OF p, of 0 0 A] m dv [of "cols A"]
      by (simp add: rows0 coeff_def)
    moreover have "data ?r2 ! p = (if \<not> p < cols A * ?n then data B ! (p - cols A * ?n)
                                   else data ?r1 ! p)"
    proof (cases "p < cols A * ?n")
      case True
      then have "\<not> cols A \<le> p div ?n" using dv [of "cols A"] by simp
      then show ?thesis
        using set_block_nth [OF r1(2), of 0 "cols A" B] True by (simp add: rows0)
    next
      case False
      then have c: "cols A \<le> p div ?n" using dv [of "cols A"] by simp
      have "p div ?n < cols A + cols B" using dv [of "cols A + cols B"] pb by simp
      then show ?thesis
        using set_block_nth [OF r1(2), of 0 "cols A" B] False c m
              column_major_index [OF c n]
        by (simp add: rows0 assms(1) [symmetric] coeff_def)
    qed
    ultimately show "data ?r2 ! p = (data A @ data B) ! p"
      using lenA by (simp add: nth_append)
  qed
  moreover have "rows ?r2 = ?n" "cols ?r2 = cols A + cols B"
    using rows0 cols0 by simp_all
  ultimately have r2: "?r2 = \<lparr>rows = rows A, cols = cols A + cols B, data = data A @ data B\<rparr>"
    by simp
  have "append_col_T uninit A B = Inr ?r2"
    unfolding append_col_T_def comma_init2_def Let_def check_size_match_def
    using assms(1) by simp
  then show ?thesis
    by (simp only: r2)
qed

text \<open>
  Claim C7. When the operands have different numbers of rows, both general overloads of
  \<open>append_col\<close> fail with the domain error of the size check, which is their first
  step: the outcome is the error alone, and no result matrix, whole or partial, is
  returned. When the numbers of rows are equal, both return a matrix.
\<close>

theorem C7_append_col_size_check:
  fixes A :: "'t1 Matrix" and B :: "'t2 Matrix" and C D :: "'a Matrix"
    and promote1 :: "'t1 \<Rightarrow> 'a" and promote2 :: "'t2 \<Rightarrow> 'a"
  shows
  "(rows A \<noteq> rows B \<longrightarrow>
      append_col promote1 promote2 uninit A B
        = Inl (Check_error ''append_col'' [''rows of A'', ''rows of B''])) \<and>
   (rows A = rows B \<longrightarrow> (\<exists>R. append_col promote1 promote2 uninit A B = Inr R)) \<and>
   (rows C \<noteq> rows D \<longrightarrow>
      append_col_T uninit C D
        = Inl (Check_error ''append_col'' [''rows of A'', ''rows of B''])) \<and>
   (rows C = rows D \<longrightarrow> (\<exists>R. append_col_T uninit C D = Inr R))"
  by (simp add: append_col_def append_col_T_def check_size_match_def Let_def)

theorem C7_append_col_size_check_witness:
  "append_col real_of_int real_of_int (\<lambda>_. 0)
      \<lparr>rows = 2, cols = 1, data = [1, 2]\<rparr> \<lparr>rows = 1, cols = 1, data = [5]\<rparr>
     = Inl (Check_error ''append_col'' [''rows of A'', ''rows of B'']) \<and>
   (\<exists>R. append_col real_of_int real_of_int (\<lambda>_. 0)
      \<lparr>rows = 2, cols = 1, data = [1, 2]\<rparr> \<lparr>rows = 2, cols = 1, data = [5, 6]\<rparr> = Inr R) \<and>
   append_col_T (\<lambda>_. 0 :: real)
      \<lparr>rows = 2, cols = 1, data = [1, 2]\<rparr> \<lparr>rows = 1, cols = 1, data = [5]\<rparr>
     = Inl (Check_error ''append_col'' [''rows of A'', ''rows of B'']) \<and>
   (\<exists>R. append_col_T (\<lambda>_. 0 :: real)
      \<lparr>rows = 2, cols = 1, data = [1, 2]\<rparr> \<lparr>rows = 2, cols = 1, data = [5, 6]\<rparr> = Inr R)"
  using C7_append_col_size_check
          [of "\<lparr>rows = 2, cols = 1, data = [1, 2]\<rparr>" "\<lparr>rows = 1, cols = 1, data = [5]\<rparr>"
              real_of_int real_of_int "\<lambda>_. 0"
              "\<lparr>rows = 2, cols = 1, data = [1, 2]\<rparr>" "\<lparr>rows = 1, cols = 1, data = [5]\<rparr>"]
        C7_append_col_size_check
          [of "\<lparr>rows = 2, cols = 1, data = [1, 2]\<rparr>" "\<lparr>rows = 2, cols = 1, data = [5, 6]\<rparr>"
              real_of_int real_of_int "\<lambda>_. 0"
              "\<lparr>rows = 2, cols = 1, data = [1, 2]\<rparr>" "\<lparr>rows = 2, cols = 1, data = [5, 6]\<rparr>"]
  by simp

lemma block_coeff:
  assumes "rows A = rows B" "wf_Matrix A" "wf_Matrix B" "i < rows A" "j < cols A + cols B"
  shows "coeff \<lparr>rows = rows A, cols = cols A + cols B, data = data A @ data B\<rparr> i j
           = (if j < cols A then coeff A i j else coeff B i (j - cols A))"
proof (cases "j < cols A")
  case True
  then have "Suc j \<le> cols A" by simp
  then have "Suc j * rows A \<le> cols A * rows A" by (rule mult_le_mono1)
  then have "i + j * rows A < length (data A)"
    using assms(2,4) by (simp add: wf_Matrix_def mult.commute)
  with True show ?thesis by (simp add: coeff_def nth_append)
next
  case False
  then have "cols A \<le> j" by simp
  then have "cols A * rows A \<le> j * rows A" by (rule mult_le_mono1)
  moreover have "length (data A) = cols A * rows A"
    using assms(2) by (simp add: wf_Matrix_def mult.commute)
  ultimately have "\<not> i + j * rows A < length (data A)" by linarith
  moreover have "i + j * rows A - cols A * rows A = i + (j - cols A) * rows A"
    using False by (simp add: diff_mult_distrib)
  ultimately show ?thesis
    using False assms(1,2) by (simp add: coeff_def nth_append wf_Matrix_def mult.commute)
qed

text \<open>
  Claim C10. For well-formed matrices \<open>A\<close> and \<open>B\<close> over one scalar type with equally
  many rows, the overload that copies coefficient by coefficient (with the conversions
  being the identity) and the overload that uses the comma initialiser return the same
  matrix, whatever the uninitialised memory held: it has \<open>rows A\<close> rows and
  \<open>cols A + cols B\<close> columns, and its coefficient \<open>(i, j)\<close> is \<open>A(i, j)\<close> for
  \<open>j < cols A\<close> and \<open>B(i, j - cols A)\<close> otherwise.
\<close>

theorem C10_append_col_overloads_agree:
  fixes A B :: "'a Matrix"
  assumes "rows A = rows B" "wf_Matrix A" "wf_Matrix B"
  shows "\<exists>R. append_col (\<lambda>x. x) (\<lambda>x. x) uninit1 A B = Inr R \<and>
             append_col_T uninit2 A B = Inr R \<and>
             rows R = rows A \<and> cols R = cols A + cols B \<and> wf_Matrix R \<and>
             (\<forall>i < rows R. \<forall>j < cols R.
                coeff R i j = (if j < cols A then coeff A i j else coeff B i (j - cols A)))"
proof -
  let ?R = "\<lparr>rows = rows A, cols = cols A + cols B, data = data A @ data B\<rparr>"
  have "append_col (\<lambda>x. x) (\<lambda>x. x) uninit1 A B = Inr ?R"
    using append_col_data [OF assms, of "\<lambda>x. x" "\<lambda>x. x" uninit1] by simp
  moreover have "append_col_T uninit2 A B = Inr ?R"
    by (rule append_col_T_data [OF assms])
  moreover have "wf_Matrix ?R"
    using assms by (simp add: wf_Matrix_def add_mult_distrib2)
  moreover have "\<forall>i < rows ?R. \<forall>j < cols ?R.
                coeff ?R i j = (if j < cols A then coeff A i j else coeff B i (j - cols A))"
    using block_coeff [OF assms] by simp
  ultimately show ?thesis
    by (intro exI [of _ ?R]) simp
qed

theorem C10_append_col_overloads_agree_witness:
  "\<exists>R. append_col (\<lambda>x. x) (\<lambda>x. x) (\<lambda>_. 0)
          \<lparr>rows = 2, cols = 2, data = [1, 2, 3, 4 :: int]\<rparr> \<lparr>rows = 2, cols = 1, data = [5, 6]\<rparr>
         = Inr R \<and>
       append_col_T (\<lambda>_. 7)
          \<lparr>rows = 2, cols = 2, data = [1, 2, 3, 4 :: int]\<rparr> \<lparr>rows = 2, cols = 1, data = [5, 6]\<rparr>
         = Inr R \<and>
       rows R = 2 \<and> cols R = 3 \<and> coeff R 1 0 = 2 \<and> coeff R 0 1 = 3 \<and> coeff R 1 2 = 6"
proof -
  let ?A = "\<lparr>rows = 2, cols = 2, data = [1, 2, 3, 4 :: int]\<rparr>"
  let ?B = "\<lparr>rows = 2, cols = 1, data = [5, 6 :: int]\<rparr>"
  have h: "rows ?A = rows ?B" "wf_Matrix ?A" "wf_Matrix ?B"
    by (simp_all add: wf_Matrix_def)
  from C10_append_col_overloads_agree [OF h, of "\<lambda>_. 0" "\<lambda>_. 7"]
  obtain R where R: "append_col (\<lambda>x. x) (\<lambda>x. x) (\<lambda>_. 0) ?A ?B = Inr R"
      "append_col_T (\<lambda>_. 7) ?A ?B = Inr R" "rows R = rows ?A" "cols R = cols ?A + cols ?B"
      "\<forall>i < rows R. \<forall>j < cols R.
          coeff R i j = (if j < cols ?A then coeff ?A i j else coeff ?B i (j - cols ?A))"
    by blast
  have "coeff R 1 0 = 2" "coeff R 0 1 = 3" "coeff R 1 2 = 6"
    using R(5) [rule_format, of 1 0] R(5) [rule_format, of 0 1] R(5) [rule_format, of 1 2] R(3,4)
    by (simp_all add: coeff_def)
  with R show ?thesis by (intro exI [of _ R]) simp
qed


subsection \<open>Matrix algebra\<close>

lemma Matrix_of_shape [simp]:
  "rows (Matrix_of r c f) = r" "cols (Matrix_of r c f) = c"
  "length (data (Matrix_of r c f)) = r * c" "wf_Matrix (Matrix_of r c f)"
  by (simp_all add: Matrix_of_def wf_Matrix_def)

lemma column_major_bound:
  fixes i j r c :: nat
  assumes "i < r" "j < c"
  shows "i + j * r < r * c"
proof -
  have "i + j * r < r + j * r" using assms(1) by simp
  also have "\<dots> = Suc j * r" by simp
  also have "\<dots> \<le> c * r" using assms(2) by (intro mult_le_mono1) simp
  finally show ?thesis by (simp add: mult.commute)
qed

lemma coeff_Matrix_of [simp]:
  assumes "i < r" "j < c"
  shows "coeff (Matrix_of r c f) i j = f i j"
  using assms column_major_bound [OF assms]
  by (simp add: coeff_def Matrix_of_def)

lemma Matrix_eqI:
  fixes M N :: "'a Matrix"
  assumes "wf_Matrix M" "wf_Matrix N" "rows M = rows N" "cols M = cols N"
    and "\<And>i j. i < rows M \<Longrightarrow> j < cols M \<Longrightarrow> coeff M i j = coeff N i j"
  shows "M = N"
proof -
  have "data M = data N"
  proof (rule nth_equalityI)
    show "length (data M) = length (data N)"
      using assms(1-4) by (simp add: wf_Matrix_def)
  next
    fix p assume "p < length (data M)"
    then have p: "p < rows M * cols M" using assms(1) by (simp add: wf_Matrix_def)
    then have r: "0 < rows M" by (cases "rows M = 0") simp_all
    have "p mod rows M < rows M" using r by simp
    moreover have "p div rows M < cols M"
      using p r by (simp add: div_less_iff_less_mult mult.commute)
    ultimately have "coeff M (p mod rows M) (p div rows M) = coeff N (p mod rows M) (p div rows M)"
      by (rule assms(5))
    then show "data M ! p = data N ! p"
      by (simp add: coeff_def assms(3) [symmetric])
  qed
  then show ?thesis using assms(3,4) by simp
qed

lemma Matrix_of_coeff:
  assumes "wf_Matrix M"
  shows "Matrix_of (rows M) (cols M) (coeff M) = M"
  by (rule Matrix_eqI) (use assms in simp_all)


lemma Matrix_transpose_shape [simp]:
  "rows (Matrix_transpose M) = cols M" "cols (Matrix_transpose M) = rows M"
  "wf_Matrix (Matrix_transpose M)"
  by (simp_all add: Matrix_transpose_def)

lemma coeff_Matrix_transpose [simp]:
  "i < cols M \<Longrightarrow> j < rows M \<Longrightarrow> coeff (Matrix_transpose M) i j = coeff M j i"
  by (simp add: Matrix_transpose_def)

lemma Matrix_times_shape [simp]:
  "rows (Matrix_times M N) = rows M" "cols (Matrix_times M N) = cols N"
  "wf_Matrix (Matrix_times M N)"
  by (simp_all add: Matrix_times_def)

lemma coeff_Matrix_times:
  "i < rows M \<Longrightarrow> j < cols N \<Longrightarrow>
   coeff (Matrix_times M N) i j = (\<Sum>k = 0..<cols M. coeff M i k * coeff N k j)"
  by (simp add: Matrix_times_def)

lemma Identity_shape [simp]:
  "rows (Identity r c) = r" "cols (Identity r c) = c" "wf_Matrix (Identity r c)"
  by (simp_all add: Identity_def)

lemma coeff_Identity [simp]:
  "i < r \<Longrightarrow> j < c \<Longrightarrow> coeff (Identity r c) i j = (if i = j then 1 else 0)"
  by (simp add: Identity_def)

lemma Matrix_zero_shape [simp]:
  "rows (Matrix_zero r c) = r" "cols (Matrix_zero r c) = c" "wf_Matrix (Matrix_zero r c)"
  by (simp_all add: Matrix_zero_def)

lemma coeff_Matrix_zero [simp]:
  "i < r \<Longrightarrow> j < c \<Longrightarrow> coeff (Matrix_zero r c) i j = 0"
  by (simp add: Matrix_zero_def)

lemma Matrix_diag_shape [simp]:
  "rows (Matrix_diag xs) = length xs" "cols (Matrix_diag xs) = length xs"
  "wf_Matrix (Matrix_diag xs)"
  by (simp_all add: Matrix_diag_def)

lemma coeff_Matrix_diag [simp]:
  "i < length xs \<Longrightarrow> j < length xs \<Longrightarrow>
   coeff (Matrix_diag xs) i j = (if i = j then xs ! i else 0)"
  by (simp add: Matrix_diag_def)

lemma Matrix_times_assoc:
  assumes "cols A = rows B" "cols B = rows C"
  shows "Matrix_times (Matrix_times A B) C = Matrix_times A (Matrix_times B C)"
proof (rule Matrix_eqI)
  fix i j assume ij: "i < rows (Matrix_times (Matrix_times A B) C)"
                     "j < cols (Matrix_times (Matrix_times A B) C)"
  then have i: "i < rows A" and j: "j < cols C" by simp_all
  have "coeff (Matrix_times (Matrix_times A B) C) i j
          = (\<Sum>k = 0..<cols B. (\<Sum>l = 0..<cols A. coeff A i l * coeff B l k) * coeff C k j)"
    using i j by (simp add: coeff_Matrix_times)
  also have "\<dots> = (\<Sum>k = 0..<cols B. \<Sum>l = 0..<cols A. coeff A i l * (coeff B l k * coeff C k j))"
    by (simp add: sum_distrib_right mult.assoc)
  also have "\<dots> = (\<Sum>l = 0..<cols A. \<Sum>k = 0..<cols B. coeff A i l * (coeff B l k * coeff C k j))"
    by (rule sum.swap)
  also have "\<dots> = (\<Sum>l = 0..<cols A. coeff A i l * (\<Sum>k = 0..<cols B. coeff B l k * coeff C k j))"
    by (simp add: sum_distrib_left)
  also have "\<dots> = coeff (Matrix_times A (Matrix_times B C)) i j"
    using i j assms by (simp add: coeff_Matrix_times)
  finally show "coeff (Matrix_times (Matrix_times A B) C) i j
                  = coeff (Matrix_times A (Matrix_times B C)) i j" .
qed simp_all

lemma Matrix_transpose_times:
  assumes "cols A = rows B"
  shows "Matrix_transpose (Matrix_times A B)
           = Matrix_times (Matrix_transpose B) (Matrix_transpose A)"
  by (rule Matrix_eqI) (use assms in \<open>simp_all add: coeff_Matrix_times mult.commute\<close>)

lemma sum_unit_left:
  fixes f :: "nat \<Rightarrow> real"
  assumes "i < n"
  shows "(\<Sum>k = 0..<n. (if i = k then 1 else 0) * f k) = f i"
proof -
  have "(\<Sum>k = 0..<n. (if i = k then 1 else 0) * f k) = (\<Sum>k = 0..<n. if k = i then f k else 0)"
    by (rule sum.cong) auto
  also have "\<dots> = f i" using assms by (simp add: sum.delta)
  finally show ?thesis .
qed

lemma sum_unit_right:
  fixes f :: "nat \<Rightarrow> real"
  assumes "j < n"
  shows "(\<Sum>k = 0..<n. f k * (if k = j then 1 else 0)) = f j"
proof -
  have "(\<Sum>k = 0..<n. f k * (if k = j then 1 else 0)) = (\<Sum>k = 0..<n. if k = j then f k else 0)"
    by (rule sum.cong) auto
  also have "\<dots> = f j" using assms by (simp add: sum.delta)
  finally show ?thesis .
qed

lemma Matrix_times_Identity_left:
  assumes "wf_Matrix A" "rows A = n"
  shows "Matrix_times (Identity n n) A = A"
  by (rule Matrix_eqI) (use assms in \<open>simp_all add: coeff_Matrix_times sum_unit_left\<close>)

lemma Matrix_times_Identity_right:
  assumes "wf_Matrix A" "cols A = n"
  shows "Matrix_times A (Identity n n) = A"
  by (rule Matrix_eqI) (use assms in \<open>simp_all add: coeff_Matrix_times sum_unit_right\<close>)

lemma Matrix_times_zero:
  assumes "cols A = n"
  shows "Matrix_times A (Matrix_zero n c) = Matrix_zero (rows A) c"
  by (rule Matrix_eqI) (use assms in \<open>simp_all add: coeff_Matrix_times\<close>)

lemma Matrix_transpose_symmetric:
  assumes "wf_Matrix M" "rows M = cols M" "symmetric M"
  shows "Matrix_transpose M = M"
  by (rule Matrix_eqI) (use assms in \<open>simp_all add: symmetric_def\<close>)

lemma symmetrize_symmetric:
  assumes "wf_Matrix M" "rows M = cols M" "symmetric M"
  shows "Matrix_scale 0.5 (Matrix_plus M (Matrix_transpose M)) = M"
  by (rule Matrix_eqI)
     (use assms in \<open>simp_all add: Matrix_scale_def Matrix_plus_def symmetric_def\<close>)


lemma quadratic_form_diag:
  assumes "rows y = length xs" "cols y = 1"
  shows "coeff (Matrix_times (Matrix_transpose y) (Matrix_times (Matrix_diag xs) y)) 0 0
           = (\<Sum>k = 0..<length xs. xs ! k * (coeff y k 0)\<^sup>2)"
proof -
  have "coeff (Matrix_times (Matrix_transpose y) (Matrix_times (Matrix_diag xs) y)) 0 0
          = (\<Sum>i = 0..<length xs. coeff y i 0 *
               (\<Sum>k = 0..<length xs. (if i = k then xs ! i else 0) * coeff y k 0))"
    using assms by (simp add: coeff_Matrix_times)
  also have "\<dots> = (\<Sum>i = 0..<length xs. coeff y i 0 * (xs ! i * coeff y i 0))"
  proof (rule sum.cong)
    fix i assume "i \<in> {0..<length xs}"
    then have i: "i < length xs" by simp
    have "(\<Sum>k = 0..<length xs. (if i = k then xs ! i else 0) * coeff y k 0)
            = (\<Sum>k = 0..<length xs. (if i = k then 1 else 0) * (xs ! i * coeff y k 0))"
      by (rule sum.cong) auto
    also have "\<dots> = xs ! i * coeff y i 0"
      using i by (rule sum_unit_left)
    finally show "coeff y i 0 * (\<Sum>k = 0..<length xs. (if i = k then xs ! i else 0) * coeff y k 0)
                    = coeff y i 0 * (xs ! i * coeff y i 0)"
      by simp
  qed simp
  also have "\<dots> = (\<Sum>k = 0..<length xs. xs ! k * (coeff y k 0)\<^sup>2)"
    by (rule sum.cong) (simp_all add: power2_eq_square)
  finally show ?thesis .
qed

lemma quadratic_form_congruence:
  assumes "rows S = n" "cols S = n" "length xs = n" "rows x = n" "cols x = 1"
  shows "coeff (Matrix_times (Matrix_transpose x)
                  (Matrix_times
                     (Matrix_times (Matrix_transpose S) (Matrix_times (Matrix_diag xs) S)) x)) 0 0
           = (\<Sum>k = 0..<n. xs ! k * (coeff (Matrix_times S x) k 0)\<^sup>2)"
proof -
  let ?y = "Matrix_times S x"
  let ?Z = "Matrix_times (Matrix_diag xs) ?y"
  have "Matrix_times (Matrix_times (Matrix_transpose S) (Matrix_times (Matrix_diag xs) S)) x
          = Matrix_times (Matrix_transpose S) (Matrix_times (Matrix_times (Matrix_diag xs) S) x)"
    using assms by (intro Matrix_times_assoc) simp_all
  also have "Matrix_times (Matrix_times (Matrix_diag xs) S) x = ?Z"
    using assms by (intro Matrix_times_assoc) simp_all
  finally have "Matrix_times (Matrix_transpose x)
                  (Matrix_times
                     (Matrix_times (Matrix_transpose S) (Matrix_times (Matrix_diag xs) S)) x)
            = Matrix_times (Matrix_transpose x) (Matrix_times (Matrix_transpose S) ?Z)"
    by simp
  also have "\<dots> = Matrix_times (Matrix_times (Matrix_transpose x) (Matrix_transpose S)) ?Z"
    using assms by (intro Matrix_times_assoc [symmetric]) simp_all
  also have "Matrix_times (Matrix_transpose x) (Matrix_transpose S) = Matrix_transpose ?y"
    using assms by (intro Matrix_transpose_times [symmetric]) simp_all
  finally have "coeff (Matrix_times (Matrix_transpose x)
                  (Matrix_times
                     (Matrix_times (Matrix_transpose S) (Matrix_times (Matrix_diag xs) S)) x)) 0 0
            = coeff (Matrix_times (Matrix_transpose ?y) ?Z) 0 0"
    by simp
  also have "\<dots> = (\<Sum>k = 0..<length xs. xs ! k * (coeff ?y k 0)\<^sup>2)"
    using assms by (intro quadratic_form_diag) simp_all
  finally show ?thesis using assms by simp
qed


lemma LDLT_exact_cols:
  assumes "LDLT_exact A f"
  shows "cols A = rows A"
proof -
  from assms obtain S where S: "cols S = rows A"
    and A: "A = Matrix_times (Matrix_transpose S) (Matrix_times (Matrix_diag (vectorD f)) S)"
    unfolding LDLT_exact_def LDLT_factors_def by blast
  have "cols A = cols (Matrix_times (Matrix_transpose S) (Matrix_times (Matrix_diag (vectorD f)) S))"
    by (rule arg_cong [OF A])
  also have "\<dots> = cols S" by simp
  finally show ?thesis using S by simp
qed

lemma positive_definite_imp_vectorD_pos:
  assumes ex: "LDLT_exact A f" and pd: "positive_definite A" and k: "k < rows A"
  shows "0 < vectorD f ! k"
proof -
  let ?n = "rows A"
  from ex obtain S T where len: "length (vectorD f) = ?n"
    and wf: "wf_Matrix S" "wf_Matrix T"
    and dim: "rows S = ?n" "cols S = ?n" "rows T = ?n" "cols T = ?n"
    and ST: "Matrix_times S T = Identity ?n ?n"
    and A: "A = Matrix_times (Matrix_transpose S) (Matrix_times (Matrix_diag (vectorD f)) S)"
    unfolding LDLT_exact_def LDLT_factors_def by blast
  have cA: "cols A = ?n" using ex by (rule LDLT_exact_cols)
  let ?e = "Matrix_of ?n 1 (\<lambda>i j. if i = k then 1 else 0 :: real)"
  let ?x = "Matrix_times T ?e"
  have Sx: "Matrix_times S ?x = ?e"
  proof -
    have "Matrix_times S ?x = Matrix_times (Matrix_times S T) ?e"
      using dim by (intro Matrix_times_assoc [symmetric]) simp_all
    also have "\<dots> = ?e" unfolding ST by (rule Matrix_times_Identity_left) simp_all
    finally show ?thesis .
  qed
  have nz: "?x \<noteq> Matrix_zero (cols A) 1"
  proof
    assume "?x = Matrix_zero (cols A) 1"
    then have "Matrix_times S ?x = Matrix_zero ?n 1"
      using Matrix_times_zero [of S ?n 1] dim cA by simp
    then have "coeff ?e k 0 = coeff (Matrix_zero ?n 1) k 0" using Sx by simp
    then show False using k by simp
  qed
  have "0 < coeff (Matrix_times (Matrix_transpose ?x) (Matrix_times A ?x)) 0 0"
    using pd nz dim cA unfolding positive_definite_def by simp
  also have "coeff (Matrix_times (Matrix_transpose ?x) (Matrix_times A ?x)) 0 0
               = (\<Sum>i = 0..<?n. vectorD f ! i * (coeff (Matrix_times S ?x) i 0)\<^sup>2)"
    by (subst (2) A) (use dim len in \<open>intro quadratic_form_congruence; simp\<close>)
  also have "\<dots> = (\<Sum>i = 0..<?n. if i = k then vectorD f ! i else 0)"
    unfolding Sx by (rule sum.cong) simp_all
  also have "\<dots> = vectorD f ! k" using k by (simp add: sum.delta)
  finally show ?thesis .
qed

lemma vectorD_pos_imp_positive_definite:
  assumes ex: "LDLT_exact A f" and pos: "\<forall>x \<in> set (vectorD f). 0 < x"
  shows "positive_definite A"
  unfolding positive_definite_def
proof (intro allI impI)
  fix x
  assume x: "wf_Matrix x \<and> rows x = cols A \<and> cols x = 1 \<and> x \<noteq> Matrix_zero (cols A) 1"
  let ?n = "rows A"
  from ex obtain S T where len: "length (vectorD f) = ?n"
    and wf: "wf_Matrix S" "wf_Matrix T"
    and dim: "rows S = ?n" "cols S = ?n" "rows T = ?n" "cols T = ?n"
    and TS: "Matrix_times T S = Identity ?n ?n"
    and A: "A = Matrix_times (Matrix_transpose S) (Matrix_times (Matrix_diag (vectorD f)) S)"
    unfolding LDLT_exact_def LDLT_factors_def by blast
  have cA: "cols A = ?n" using ex by (rule LDLT_exact_cols)
  let ?y = "Matrix_times S x"
  have "\<exists>k < ?n. coeff ?y k 0 \<noteq> 0"
  proof (rule ccontr)
    assume "\<not> (\<exists>k < ?n. coeff ?y k 0 \<noteq> 0)"
    then have "?y = Matrix_zero ?n 1"
      using x dim by (intro Matrix_eqI) simp_all
    then have "Matrix_times T ?y = Matrix_zero ?n 1"
      using Matrix_times_zero [of T ?n 1] dim by simp
    moreover have "Matrix_times T ?y = Matrix_times (Matrix_times T S) x"
      using dim x cA by (intro Matrix_times_assoc [symmetric]) simp_all
    moreover have "Matrix_times (Identity ?n ?n) x = x"
      using x cA by (intro Matrix_times_Identity_left) simp_all
    ultimately have "x = Matrix_zero ?n 1" using TS by simp
    then show False using x cA by simp
  qed
  then obtain k where k: "k < ?n" "coeff ?y k 0 \<noteq> 0" by blast
  have D: "0 < vectorD f ! i" if "i < ?n" for i
    using pos that len by (simp add: nth_mem)
  have "0 < (\<Sum>i = 0..<?n. vectorD f ! i * (coeff ?y i 0)\<^sup>2)"
  proof (rule sum_pos2 [of _ k])
    show "0 < vectorD f ! k * (coeff ?y k 0)\<^sup>2"
      using D [OF k(1)] k(2) by simp
    show "\<And>i. i \<in> {0..<?n} \<Longrightarrow> 0 \<le> vectorD f ! i * (coeff ?y i 0)\<^sup>2"
      using D by (simp add: less_imp_le)
  qed (use k in simp_all)
  also have "(\<Sum>i = 0..<?n. vectorD f ! i * (coeff ?y i 0)\<^sup>2)
               = coeff (Matrix_times (Matrix_transpose x) (Matrix_times A x)) 0 0"
    by (subst (2) A) (use dim len x cA in \<open>intro quadratic_form_congruence [symmetric]; simp\<close>)
  finally show "0 < coeff (Matrix_times (Matrix_transpose x) (Matrix_times A x)) 0 0" .
qed


lemma Matrix_transpose_Identity: "Matrix_transpose (Identity n n) = Identity n n"
  by (rule Matrix_eqI) auto

lemma Matrix_diag_cancel_left:
  assumes "\<forall>x \<in> set xs. x \<noteq> 0" "wf_Matrix Y" "rows Y = length xs"
  shows "Matrix_times (Matrix_diag (map inverse xs)) (Matrix_times (Matrix_diag xs) Y) = Y"
proof (rule Matrix_eqI)
  fix i j
  assume "i < rows (Matrix_times (Matrix_diag (map inverse xs)) (Matrix_times (Matrix_diag xs) Y))"
     and "j < cols (Matrix_times (Matrix_diag (map inverse xs)) (Matrix_times (Matrix_diag xs) Y))"
  then have i: "i < length xs" and j: "j < cols Y" by simp_all
  have nz: "xs ! i \<noteq> 0" using assms(1) i by (simp add: nth_mem)
  have row: "coeff (Matrix_times (Matrix_diag zs) Y) k j = zs ! k * coeff Y k j"
    if "k < length zs" "length zs = length xs" for zs :: "real list" and k
  proof -
    have "coeff (Matrix_times (Matrix_diag zs) Y) k j
            = (\<Sum>l = 0..<length zs. (if k = l then 1 else 0) * (zs ! k * coeff Y l j))"
      using that j assms(3) by (simp add: coeff_Matrix_times) (rule sum.cong, auto)
    also have "\<dots> = zs ! k * coeff Y k j" using that(1) by (rule sum_unit_left)
    finally show ?thesis .
  qed
  have "coeff (Matrix_times (Matrix_diag (map inverse xs)) (Matrix_times (Matrix_diag xs) Y)) i j
          = (\<Sum>l = 0..<length xs.
               (if i = l then 1 else 0) * (inverse (xs ! i) * coeff (Matrix_times (Matrix_diag xs) Y) l j))"
    using i j by (simp add: coeff_Matrix_times) (rule sum.cong, auto)
  also have "\<dots> = inverse (xs ! i) * coeff (Matrix_times (Matrix_diag xs) Y) i j"
    using i by (rule sum_unit_left)
  also have "\<dots> = coeff Y i j"
    using row [of i xs] i nz by simp
  finally show "coeff (Matrix_times (Matrix_diag (map inverse xs)) (Matrix_times (Matrix_diag xs) Y)) i j
                  = coeff Y i j" .
qed (use assms in simp_all)

lemma Matrix_diag_cancel_right:
  assumes "\<forall>x \<in> set xs. x \<noteq> 0" "wf_Matrix Y" "rows Y = length xs"
  shows "Matrix_times (Matrix_diag xs) (Matrix_times (Matrix_diag (map inverse xs)) Y) = Y"
proof -
  have "\<forall>x \<in> set (map inverse xs). x \<noteq> 0" using assms(1) by auto
  moreover have "map inverse (map inverse xs) = xs" by (simp add: comp_def)
  ultimately show ?thesis
    using Matrix_diag_cancel_left [of "map inverse xs" Y] assms(2,3) by simp
qed

lemma LDLT_solve_is_inverse:
  assumes wf: "wf_Matrix S" "wf_Matrix T"
    and dim: "rows S = n" "cols S = n" "rows T = n" "cols T = n"
    and ST: "Matrix_times S T = Identity n n" and TS: "Matrix_times T S = Identity n n"
    and len: "length xs = n" and nz: "\<forall>x \<in> set xs. x \<noteq> 0"
  defines "M \<equiv> Matrix_times (Matrix_transpose S) (Matrix_times (Matrix_diag xs) S)"
  defines "X \<equiv> Matrix_times T (Matrix_times (Matrix_diag (map inverse xs))
                                    (Matrix_times (Matrix_transpose T) (Identity n n)))"
  shows "Matrix_times X M = Identity n n" and "Matrix_times M X = Identity n n"
proof -
  let ?D = "Matrix_diag xs" and ?E = "Matrix_diag (map inverse xs)"
  let ?S' = "Matrix_transpose S" and ?T' = "Matrix_transpose T"
  have X: "X = Matrix_times T (Matrix_times ?E ?T')"
    unfolding X_def using dim by (simp add: Matrix_times_Identity_right)
  have T'S': "Matrix_times ?T' ?S' = Identity n n"
    using Matrix_transpose_times [of S T] dim ST by (simp add: Matrix_transpose_Identity)
  have S'T': "Matrix_times ?S' ?T' = Identity n n"
    using Matrix_transpose_times [of T S] dim TS by (simp add: Matrix_transpose_Identity)
  have "Matrix_times ?T' M = Matrix_times (Matrix_times ?T' ?S') (Matrix_times ?D S)"
    unfolding M_def using dim len by (intro Matrix_times_assoc [symmetric]) simp_all
  also have "\<dots> = Matrix_times ?D S"
    unfolding T'S' using len by (intro Matrix_times_Identity_left) simp_all
  finally have a: "Matrix_times ?T' M = Matrix_times ?D S" .
  have "Matrix_times X M = Matrix_times T (Matrix_times (Matrix_times ?E ?T') M)"
    unfolding X using dim len by (intro Matrix_times_assoc) (simp_all add: M_def)
  also have "Matrix_times (Matrix_times ?E ?T') M = Matrix_times ?E (Matrix_times ?T' M)"
    using dim len by (intro Matrix_times_assoc) (simp_all add: M_def)
  also have "\<dots> = S"
    unfolding a using nz wf dim len by (intro Matrix_diag_cancel_left) simp_all
  finally show "Matrix_times X M = Identity n n" using TS by simp
  have "Matrix_times S X = Matrix_times (Matrix_times S T) (Matrix_times ?E ?T')"
    unfolding X using dim len by (intro Matrix_times_assoc [symmetric]) simp_all
  also have "\<dots> = Matrix_times ?E ?T'"
    unfolding ST using len by (intro Matrix_times_Identity_left) simp_all
  finally have b: "Matrix_times S X = Matrix_times ?E ?T'" .
  have "Matrix_times M X = Matrix_times ?S' (Matrix_times (Matrix_times ?D S) X)"
    unfolding M_def using dim len by (intro Matrix_times_assoc) (simp_all add: X)
  also have "Matrix_times (Matrix_times ?D S) X = Matrix_times ?D (Matrix_times S X)"
    using dim len by (intro Matrix_times_assoc) (simp_all add: X)
  also have "\<dots> = ?T'"
    unfolding b using nz dim len by (intro Matrix_diag_cancel_right) simp_all
  finally show "Matrix_times M X = Identity n n" using S'T' by simp
qed


lemma sum_upto_2: "(\<Sum>k = 0..<2. f k) = f (0 :: nat) + (f 1 :: real)"
  by (simp add: numeral_2_eq_2)

lemma less_two_cases: "(i :: nat) < 2 \<Longrightarrow> i = 0 \<or> i = 1"
  by auto

lemma LDLT_2x2_exact:
  assumes "wf_Matrix A" "rows A = 2" "cols A = 2" "symmetric A" "coeff A 0 0 \<noteq> 0"
  shows "LDLT_exact A (LDLT_2x2 A)"
proof -
  define l where "l = coeff A 1 0 / coeff A 0 0"
  let ?S = "Matrix_of 2 2 (\<lambda>i j. if i = j then 1 else if i = 0 \<and> j = 1 then l else 0 :: real)"
  let ?T = "Matrix_of 2 2 (\<lambda>i j. if i = j then 1 else if i = 0 \<and> j = 1 then - l else 0 :: real)"
  have sym: "coeff A 0 1 = coeff A 1 0"
    using assms(2,4) by (simp add: symmetric_def)
  have ST: "Matrix_times ?S ?T = Identity 2 2"
    by (rule Matrix_eqI) (auto dest!: less_two_cases simp: coeff_Matrix_times sum_upto_2)
  have TS: "Matrix_times ?T ?S = Identity 2 2"
    by (rule Matrix_eqI) (auto dest!: less_two_cases simp: coeff_Matrix_times sum_upto_2)
  have A: "A = Matrix_times (Matrix_transpose ?S)
                 (Matrix_times (Matrix_diag [coeff A 0 0, coeff A 1 1 - l * coeff A 1 0]) ?S)"
    by (rule Matrix_eqI)
       (use assms sym in \<open>auto dest!: less_two_cases simp: coeff_Matrix_times sum_upto_2 l_def\<close>)
  have "LDLT_factors A (LDLT_2x2 A) ?S ?T"
    using assms(2) ST TS A
    unfolding LDLT_factors_def LDLT_2x2_def Let_def l_def by simp
  then show ?thesis unfolding LDLT_exact_def by blast
qed

subsection \<open>\<open>inverse_spd\<close>\<close>

lemma symmetric_2x2:
  assumes "rows M = 2"
  shows "symmetric M \<longleftrightarrow> coeff M 0 1 = coeff M 1 0"
  unfolding symmetric_def assms
  by (auto dest!: less_two_cases)

lemma inverse_spd_accepts:
  assumes "wf_Matrix m" "rows m = cols m" "symmetric m"
    and "info (factorize m) = Success" "isPositive (factorize m)"
    and "\<forall>x \<in> set (vectorD (factorize m)). 0 < x"
  shows "inverse_spd factorize m = Inr (solve (factorize m) (Identity (rows m) (cols m)))"
proof -
  have "Matrix_scale 0.5 (Matrix_plus m (Matrix_transpose m)) = m"
    using assms(1-3) by (rule symmetrize_symmetric)
  moreover have "\<not> (\<exists>x \<in> set (vectorD (factorize m)). x \<le> 0)"
    using assms(6) by (auto simp: not_le)
  ultimately show ?thesis
    using assms(2-5) by (simp add: inverse_spd_def check_square_def check_symmetric_def)
qed

lemma inverse_spd_Inr:
  assumes "wf_Matrix m" "inverse_spd factorize m = Inr X"
  shows "rows m = cols m" "symmetric m"
    "Matrix_scale 0.5 (Matrix_plus m (Matrix_transpose m)) = m"
    "info (factorize m) = Success" "isPositive (factorize m)"
    "\<forall>x \<in> set (vectorD (factorize m)). 0 < x"
    "X = solve (factorize m) (Identity (rows m) (cols m))"
proof -
  show sq: "rows m = cols m" and sy: "symmetric m"
    using assms(2)
    by (auto simp: inverse_spd_def check_square_def check_symmetric_def split: if_splits)
  show eq: "Matrix_scale 0.5 (Matrix_plus m (Matrix_transpose m)) = m"
    using assms(1) sq sy by (rule symmetrize_symmetric)
  have r: "(if info (factorize m) \<noteq> Success
            then Inl (Domain_error ''Error in inverse_spd, LDLT factorization failed'')
            else if \<not> isPositive (factorize m) \<or> (\<exists>x \<in> set (vectorD (factorize m)). x \<le> 0)
            then Inl (Domain_error ''Error in inverse_spd, matrix not positive definite'')
            else Inr (solve (factorize m) (Identity (rows m) (cols m)))) = Inr X"
    using assms(2) unfolding inverse_spd_def check_square_def check_symmetric_def Let_def eq
    using sq sy by simp
  then show "info (factorize m) = Success" "isPositive (factorize m)"
    "X = solve (factorize m) (Identity (rows m) (cols m))"
    by (auto split: if_splits)
  from r show "\<forall>x \<in> set (vectorD (factorize m)). 0 < x"
    by (auto split: if_splits simp: not_le)
qed

text \<open>
  Claim C2. Let \<open>M\<close> be a symmetric positive definite matrix, and let the
  factorization of \<open>M\<close> succeed and be an \<open>LDL\<^sup>T\<close> factorization of \<open>M\<close> (with
  \<open>isPositive\<close> true when all entries of \<open>D\<close> are positive). Then \<open>inverse_spd\<close>
  passes both checks and both tests on the factorization, returns a matrix \<open>X\<close>, and
  \<open>X\<close> is the inverse of \<open>M\<close>: \<open>X M\<close> and \<open>M X\<close> are the identity.
\<close>

theorem C2_inverse_spd_inverse:
  assumes "wf_Matrix M" "rows M = cols M" "symmetric M" "positive_definite M"
    and "info (factorize M) = Success"
    and "LDLT_exact M (factorize M)"
    and "(\<forall>x \<in> set (vectorD (factorize M)). 0 < x) \<longrightarrow> isPositive (factorize M)"
  shows "\<exists>X. inverse_spd factorize M = Inr X \<and>
             wf_Matrix X \<and> rows X = rows M \<and> cols X = cols M \<and>
             Matrix_times X M = Identity (rows M) (cols M) \<and>
             Matrix_times M X = Identity (rows M) (cols M)"
proof -
  let ?f = "factorize M" and ?n = "rows M"
  from assms(6) obtain S T where F: "LDLT_factors M ?f S T"
    unfolding LDLT_exact_def by blast
  have pos: "\<forall>x \<in> set (vectorD ?f). 0 < x"
  proof
    fix x assume "x \<in> set (vectorD ?f)"
    then obtain k where "k < length (vectorD ?f)" "x = vectorD ?f ! k"
      by (auto simp: in_set_conv_nth)
    moreover have "length (vectorD ?f) = ?n" using F by (simp add: LDLT_factors_def)
    ultimately show "0 < x"
      using positive_definite_imp_vectorD_pos [OF assms(6) assms(4)] by simp
  qed
  let ?X = "solve ?f (Identity ?n (cols M))"
  have acc: "inverse_spd factorize M = Inr ?X"
    using assms(1-3,5) _ pos by (rule inverse_spd_accepts) (use assms(7) pos in blast)
  have X: "?X = Matrix_times T (Matrix_times (Matrix_diag (map inverse (vectorD ?f)))
                                  (Matrix_times (Matrix_transpose T) (Identity ?n ?n)))"
    using F assms(2) by (simp add: LDLT_factors_def)
  have M: "M = Matrix_times (Matrix_transpose S) (Matrix_times (Matrix_diag (vectorD ?f)) S)"
    using F by (simp add: LDLT_factors_def)
  have nz: "\<forall>x \<in> set (vectorD ?f). x \<noteq> 0" using pos by auto
  have F': "wf_Matrix S" "wf_Matrix T" "rows S = ?n" "cols S = ?n" "rows T = ?n" "cols T = ?n"
    "Matrix_times S T = Identity ?n ?n" "Matrix_times T S = Identity ?n ?n"
    "length (vectorD ?f) = ?n"
    using F by (simp_all add: LDLT_factors_def)
  have inv: "Matrix_times ?X M = Identity ?n ?n" "Matrix_times M ?X = Identity ?n ?n"
    using LDLT_solve_is_inverse [OF F' nz] unfolding M [symmetric] X [symmetric] by simp_all
  have "wf_Matrix ?X" "rows ?X = ?n" "cols ?X = ?n"
    unfolding X using F by (simp_all add: LDLT_factors_def)
  with acc inv assms(2) show ?thesis by (intro exI [of _ ?X]) simp
qed

lemma inverse_example:
  "solve (LDLT_2x2 \<lparr>rows = 2, cols = 2, data = [2, 1, 1, 2]\<rparr>) (Identity 2 2)
     = \<lparr>rows = 2, cols = 2, data = [2 / 3, - 1 / 3, - 1 / 3, 2 / 3]\<rparr>"
proof -
  let ?T = "Matrix_of 2 2 (\<lambda>i j. if i = j then 1 else if i = 0 \<and> j = 1 then - (1 / 2) else 0 :: real)"
  let ?X = "Matrix_times ?T (Matrix_times (Matrix_diag [1 / 2, 2 / 3])
                               (Matrix_times (Matrix_transpose ?T) (Identity 2 2)))"
  let ?R = "\<lparr>rows = 2, cols = 2, data = [2 / 3, - 1 / 3, - 1 / 3, 2 / 3 :: real]\<rparr>"
  have "solve (LDLT_2x2 \<lparr>rows = 2, cols = 2, data = [2, 1, 1, 2]\<rparr>) (Identity 2 2) = ?X"
    by (simp add: LDLT_2x2_def Let_def coeff_def)
  moreover have "?X = ?R"
  proof (rule Matrix_eqI)
    fix i j assume "i < rows ?X" "j < cols ?X"
    then have ij: "i = 0 \<or> i = 1" "j = 0 \<or> j = 1" by auto
    have X: "coeff ?X 0 0 = 2 / 3" "coeff ?X 1 0 = - 1 / 3"
            "coeff ?X 0 1 = - 1 / 3" "coeff ?X 1 1 = 2 / 3"
      by (simp_all add: coeff_Matrix_times sum_upto_2)
    have R: "coeff ?R 0 0 = 2 / 3" "coeff ?R 1 0 = - 1 / 3"
            "coeff ?R 0 1 = - 1 / 3" "coeff ?R 1 1 = 2 / 3"
      by (simp_all add: coeff_def)
    show "coeff ?X i j = coeff ?R i j"
      using ij X R by auto
  qed (simp_all, simp add: wf_Matrix_def)
  ultimately show ?thesis by simp
qed

lemma positive_definite_example:
  "wf_Matrix \<lparr>rows = 2, cols = 2, data = [2, 1, 1, 2 :: real]\<rparr>"
  "symmetric \<lparr>rows = 2, cols = 2, data = [2, 1, 1, 2]\<rparr>"
  "LDLT_exact \<lparr>rows = 2, cols = 2, data = [2, 1, 1, 2]\<rparr>
       (LDLT_2x2 \<lparr>rows = 2, cols = 2, data = [2, 1, 1, 2]\<rparr>)"
  "info (LDLT_2x2 \<lparr>rows = 2, cols = 2, data = [2, 1, 1, 2]\<rparr>) = Success"
  "isPositive (LDLT_2x2 \<lparr>rows = 2, cols = 2, data = [2, 1, 1, 2]\<rparr>)"
  "vectorD (LDLT_2x2 \<lparr>rows = 2, cols = 2, data = [2, 1, 1, 2]\<rparr>) = [2, 3 / 2]"
  "positive_definite \<lparr>rows = 2, cols = 2, data = [2, 1, 1, 2]\<rparr>"
proof -
  let ?M = "\<lparr>rows = 2, cols = 2, data = [2, 1, 1, 2 :: real]\<rparr>"
  show wf: "wf_Matrix ?M" by (simp add: wf_Matrix_def)
  show sy: "symmetric ?M" by (simp add: symmetric_2x2 coeff_def)
  show ex: "LDLT_exact ?M (LDLT_2x2 ?M)"
    using wf _ _ sy by (rule LDLT_2x2_exact) (simp_all add: coeff_def)
  show "info (LDLT_2x2 ?M) = Success" "isPositive (LDLT_2x2 ?M)"
    and D: "vectorD (LDLT_2x2 ?M) = [2, 3 / 2]"
    by (simp_all add: LDLT_2x2_def Let_def coeff_def)
  show "positive_definite ?M"
    using ex by (rule vectorD_pos_imp_positive_definite) (simp add: D)
qed

theorem C2_inverse_spd_inverse_witness:
  "inverse_spd LDLT_2x2 \<lparr>rows = 2, cols = 2, data = [2, 1, 1, 2]\<rparr>
     = Inr \<lparr>rows = 2, cols = 2, data = [2 / 3, - 1 / 3, - 1 / 3, 2 / 3]\<rparr> \<and>
   Matrix_times \<lparr>rows = 2, cols = 2, data = [2 / 3, - 1 / 3, - 1 / 3, 2 / 3]\<rparr>
                \<lparr>rows = 2, cols = 2, data = [2, 1, 1, 2]\<rparr> = Identity 2 2 \<and>
   Matrix_times \<lparr>rows = 2, cols = 2, data = [2, 1, 1, 2]\<rparr>
                \<lparr>rows = 2, cols = 2, data = [2 / 3, - 1 / 3, - 1 / 3, 2 / 3]\<rparr> = Identity 2 2"
proof -
  let ?M = "\<lparr>rows = 2, cols = 2, data = [2, 1, 1, 2 :: real]\<rparr>"
  have "\<exists>X. inverse_spd LDLT_2x2 ?M = Inr X \<and>
             wf_Matrix X \<and> rows X = rows ?M \<and> cols X = cols ?M \<and>
             Matrix_times X ?M = Identity (rows ?M) (cols ?M) \<and>
             Matrix_times ?M X = Identity (rows ?M) (cols ?M)"
    by (rule C2_inverse_spd_inverse) (simp_all add: positive_definite_example)
  moreover have "inverse_spd LDLT_2x2 ?M
      = Inr \<lparr>rows = 2, cols = 2, data = [2 / 3, - 1 / 3, - 1 / 3, 2 / 3]\<rparr>"
    using inverse_spd_accepts [of ?M LDLT_2x2] inverse_example
    by (simp add: positive_definite_example)
  ultimately show ?thesis by auto
qed

lemma inverse_spd_rejects_shape:
  assumes "rows m \<noteq> cols m \<or> \<not> symmetric m"
  shows "inverse_spd factorize m = Inl (Check_error ''inverse_spd(%1%)'' [''m''])"
  using assms by (auto simp: inverse_spd_def check_square_def check_symmetric_def)

lemma inverse_spd_rejects_not_positive_definite:
  assumes "wf_Matrix m" "rows m = cols m" "symmetric m" "\<not> positive_definite m"
    and "(\<forall>x \<in> set (vectorD (factorize m)). 0 < x) \<longrightarrow> LDLT_exact m (factorize m)"
  shows "inverse_spd factorize m
           = Inl (Domain_error ''Error in inverse_spd, LDLT factorization failed'') \<or>
         inverse_spd factorize m
           = Inl (Domain_error ''Error in inverse_spd, matrix not positive definite'')"
proof -
  have eq: "Matrix_scale 0.5 (Matrix_plus m (Matrix_transpose m)) = m"
    using assms(1-3) by (rule symmetrize_symmetric)
  have "\<not> (\<forall>x \<in> set (vectorD (factorize m)). 0 < x)"
    using assms(4,5) vectorD_pos_imp_positive_definite [of m "factorize m"] by blast
  then have "\<exists>x \<in> set (vectorD (factorize m)). x \<le> 0"
    by (auto simp: not_less)
  then show ?thesis
    unfolding inverse_spd_def check_square_def check_symmetric_def Let_def eq
    using assms(2,3) by simp
qed

text \<open>
  Claim C3, as amended. A matrix that is not square or not symmetric is rejected with
  the domain error of the argument check, which carries the name \<open>m\<close> of the
  argument. A symmetric matrix that is not positive definite is rejected too (provided
  the factorization is an \<open>LDL\<^sup>T\<close> factorization whenever all entries of its \<open>D\<close>
  are positive), but with a domain error that carries one of the two messages of the
  source and no argument name. In both cases no matrix is returned.
\<close>

theorem C3_inverse_spd_rejects:
  "(rows m \<noteq> cols m \<or> \<not> symmetric m \<longrightarrow>
      inverse_spd factorize m = Inl (Check_error ''inverse_spd(%1%)'' [''m'']) \<and>
      ''m'' \<in> set (arg_names (Check_error ''inverse_spd(%1%)'' [''m'']))) \<and>
   (wf_Matrix m \<and> rows m = cols m \<and> symmetric m \<and> \<not> positive_definite m \<and>
    ((\<forall>x \<in> set (vectorD (factorize m)). 0 < x) \<longrightarrow> LDLT_exact m (factorize m)) \<longrightarrow>
      (\<exists>e. inverse_spd factorize m = Inl e \<and> arg_names e = [] \<and>
           (e = Domain_error ''Error in inverse_spd, LDLT factorization failed'' \<or>
            e = Domain_error ''Error in inverse_spd, matrix not positive definite'')))"
proof (intro conjI impI)
  assume "rows m \<noteq> cols m \<or> \<not> symmetric m"
  then show "inverse_spd factorize m = Inl (Check_error ''inverse_spd(%1%)'' [''m''])"
    by (rule inverse_spd_rejects_shape)
next
  show "''m'' \<in> set (arg_names (Check_error ''inverse_spd(%1%)'' [''m'']))" by simp
next
  assume a: "wf_Matrix m \<and> rows m = cols m \<and> symmetric m \<and> \<not> positive_definite m \<and>
    ((\<forall>x \<in> set (vectorD (factorize m)). 0 < x) \<longrightarrow> LDLT_exact m (factorize m))"
  then have "inverse_spd factorize m
           = Inl (Domain_error ''Error in inverse_spd, LDLT factorization failed'') \<or>
         inverse_spd factorize m
           = Inl (Domain_error ''Error in inverse_spd, matrix not positive definite'')"
    by (intro inverse_spd_rejects_not_positive_definite) simp_all
  then show "\<exists>e. inverse_spd factorize m = Inl e \<and> arg_names e = [] \<and>
           (e = Domain_error ''Error in inverse_spd, LDLT factorization failed'' \<or>
            e = Domain_error ''Error in inverse_spd, matrix not positive definite'')"
    by auto
qed

lemma indefinite_example:
  "\<not> positive_definite \<lparr>rows = 2, cols = 2, data = [1, 2, 2, 1]\<rparr>"
proof
  let ?m = "\<lparr>rows = 2, cols = 2, data = [1, 2, 2, 1 :: real]\<rparr>"
  let ?x = "\<lparr>rows = 2, cols = 1, data = [1, - 1 :: real]\<rparr>"
  assume pd: "positive_definite ?m"
  have "?x \<noteq> Matrix_zero 2 1"
  proof
    assume "?x = Matrix_zero 2 1"
    then have "coeff ?x 0 0 = coeff (Matrix_zero 2 1) 0 0" by simp
    moreover have "coeff ?x 0 0 = 1" by (simp add: coeff_def)
    moreover have "coeff (Matrix_zero 2 1) 0 0 = 0" by simp
    ultimately show False by simp
  qed
  then have "0 < coeff (Matrix_times (Matrix_transpose ?x) (Matrix_times ?m ?x)) 0 0"
    using pd unfolding positive_definite_def by (simp add: wf_Matrix_def)
  moreover have "coeff (Matrix_times (Matrix_transpose ?x) (Matrix_times ?m ?x)) 0 0 = - 2"
    by (simp add: coeff_Matrix_times sum_upto_2) (simp add: coeff_def)
  ultimately show False by simp
qed

theorem C3_inverse_spd_rejects_witness:
  "inverse_spd LDLT_2x2 \<lparr>rows = 2, cols = 2, data = [1, 3, 2, 4]\<rparr>
     = Inl (Check_error ''inverse_spd(%1%)'' [''m'']) \<and>
   inverse_spd LDLT_2x2 \<lparr>rows = 2, cols = 1, data = [1, 2]\<rparr>
     = Inl (Check_error ''inverse_spd(%1%)'' [''m'']) \<and>
   (\<exists>e. inverse_spd LDLT_2x2 \<lparr>rows = 2, cols = 2, data = [1, 2, 2, 1]\<rparr> = Inl e \<and>
        arg_names e = [])"
proof -
  let ?m1 = "\<lparr>rows = 2, cols = 2, data = [1, 3, 2, 4 :: real]\<rparr>"
  let ?m2 = "\<lparr>rows = 2, cols = 1, data = [1, 2 :: real]\<rparr>"
  let ?m0 = "\<lparr>rows = 2, cols = 2, data = [1, 2, 2, 1 :: real]\<rparr>"
  have h1: "rows ?m1 \<noteq> cols ?m1 \<or> \<not> symmetric ?m1"
    by (simp add: symmetric_2x2 coeff_def)
  have h2: "rows ?m2 \<noteq> cols ?m2 \<or> \<not> symmetric ?m2"
    by simp
  have wf: "wf_Matrix ?m0" "rows ?m0 = cols ?m0" by (simp_all add: wf_Matrix_def)
  have sy: "symmetric ?m0" by (simp add: symmetric_2x2 coeff_def)
  have "LDLT_exact ?m0 (LDLT_2x2 ?m0)"
    using wf(1) _ _ sy by (rule LDLT_2x2_exact) (simp_all add: coeff_def)
  then have h0: "wf_Matrix ?m0 \<and> rows ?m0 = cols ?m0 \<and> symmetric ?m0 \<and> \<not> positive_definite ?m0 \<and>
    ((\<forall>x \<in> set (vectorD (LDLT_2x2 ?m0)). 0 < x) \<longrightarrow> LDLT_exact ?m0 (LDLT_2x2 ?m0))"
    using wf sy indefinite_example by blast
  show ?thesis
    using C3_inverse_spd_rejects [of ?m1 LDLT_2x2] h1
          C3_inverse_spd_rejects [of ?m2 LDLT_2x2] h2
          C3_inverse_spd_rejects [of ?m0 LDLT_2x2] h0
    by blast
qed

text \<open>
  The claim C3 as stated fails: the symmetric indefinite matrix with the rows \<open>(1, 2)\<close>
  and \<open>(2, 1)\<close> is rejected with an error that does not carry the argument's name.
\<close>

theorem C3_inverse_spd_error_without_name:
  "\<not> positive_definite \<lparr>rows = 2, cols = 2, data = [1, 2, 2, 1]\<rparr> \<and>
   inverse_spd LDLT_2x2 \<lparr>rows = 2, cols = 2, data = [1, 2, 2, 1]\<rparr>
     = Inl (Domain_error ''Error in inverse_spd, matrix not positive definite'') \<and>
   ''m'' \<notin> set (arg_names (Domain_error ''Error in inverse_spd, matrix not positive definite''))"
proof -
  let ?m = "\<lparr>rows = 2, cols = 2, data = [1, 2, 2, 1 :: real]\<rparr>"
  have wf: "wf_Matrix ?m" "rows ?m = cols ?m" by (simp_all add: wf_Matrix_def)
  have sy: "symmetric ?m" by (simp add: symmetric_2x2 coeff_def)
  have eq: "Matrix_scale 0.5 (Matrix_plus ?m (Matrix_transpose ?m)) = ?m"
    using wf sy by (rule symmetrize_symmetric)
  have "inverse_spd LDLT_2x2 ?m
          = Inl (Domain_error ''Error in inverse_spd, matrix not positive definite'')"
    unfolding inverse_spd_def check_square_def check_symmetric_def Let_def eq
    using sy by (simp add: LDLT_2x2_def Let_def coeff_def)
  then show ?thesis using indefinite_example by simp
qed













end
